theory Spec2Isabelle
  imports Main
begin

section \<open>The syntax trees the builder consumes\<close>

text \<open>
  The front end (pycparser) hands \<^verbatim>\<open>generate_cfg\<close> a tree of \<^verbatim>\<open>c_ast\<close> nodes. Both
  visitors dispatch on the class name of a node, so one datatype holds every node kind
  the source names, and \<open>Other\<close> stands for every remaining class (array references,
  casts, for loops, declarations, ...), which both visitors hand to \<^verbatim>\<open>generic_visit\<close>.
  Only the fields the source reads are kept, apart from the operators of assignments
  and binary expressions, which the source ignores. A field the source tests against
  \<^verbatim>\<open>None\<close> is an option. The callee of a call is the text of \<^verbatim>\<open>n.name.name\<close>, the
  identifier a direct call \<^verbatim>\<open>f(...)\<close> names; the name of a function definition is
  \<^verbatim>\<open>n.decl.name\<close>.
\<close>

datatype node =
    FileAST "node list"
  | FuncDef string node
  | Compound "node list option"
  | If "node option" "node option" "node option"
  | While "node option" "node option"
  | FuncCall string "node list option"
  | Assignment string node node
  | Return "node option"
  | Constant string
  | ID string
  | UnaryOp string node
  | BinaryOp string node node
  | Other string

text \<open>
  The exceptions a build can end with. \<open>UnsupportedLanguageConstruct\<close> is the class the
  source defines; the others are raised by the interpreter: \<open>AssertionError\<close> by the
  \<^verbatim>\<open>assert\<close> of \<^verbatim>\<open>visit_FuncDef\<close>, \<open>NameError\<close> by the read of the unbound name
  \<^verbatim>\<open>node\<close> in \<^verbatim>\<open>visit_FileAST\<close>, \<open>TypeError\<close> and \<open>ValueError\<close> by the unpacking
  \<^verbatim>\<open>head, *tail = n.block_items\<close> of a block without items.
\<close>

datatype error =
    UnsupportedLanguageConstruct
  | AssertionError
  | NameError
  | TypeError
  | ValueError

section \<open>Shape tests\<close>

text \<open>
  \<^verbatim>\<open>is_deref\<close>, \<^verbatim>\<open>is_address\<close>, \<^verbatim>\<open>is_var\<close> and \<^verbatim>\<open>is_const\<close> return a name or
  \<^verbatim>\<open>None\<close>. Their callers use the result as a condition, where Python takes
  \<^verbatim>\<open>None\<close> and the empty string for false: \<open>truthy\<close>.
\<close>

fun is_deref :: "node \<Rightarrow> string option" where
  "is_deref (UnaryOp op (ID name)) = (if op = ''*'' then Some name else None)"
| "is_deref _ = None"

fun is_address :: "node \<Rightarrow> string option" where
  "is_address (UnaryOp op (ID name)) = (if op = ''&'' then Some name else None)"
| "is_address _ = None"

fun is_var :: "node \<Rightarrow> string option" where
  "is_var (ID name) = Some name"
| "is_var _ = None"

fun is_const :: "node \<Rightarrow> string option" where
  "is_const (Constant v) = Some v"
| "is_const _ = None"

fun truthy :: "string option \<Rightarrow> bool" where
  "truthy None = False"
| "truthy (Some v) = (v \<noteq> [])"

section \<open>The read scan: ExpressionVisitor\<close>

text \<open>
  The visitor's two Python sets are kept as duplicate-free lists in insertion order
  (\<open>List.insert\<close> adds an element that is not yet there). Python leaves the iteration
  order of a set open; no theorem below depends on the order chosen here.
  \<open>expr_visit\<close> is \<^verbatim>\<open>ExpressionVisitor.visit\<close> on a node; \<open>ExpressionVisitor_visit\<close> is
  the same call on a value that may be \<^verbatim>\<open>None\<close>, for which the dispatch finds no
  method \<^verbatim>\<open>visit_NoneType\<close> and falls to \<^verbatim>\<open>generic_visit\<close>.
\<close>

type_synonym reads = "string list \<times> string list"

fun expr_visit :: "node \<Rightarrow> reads \<Rightarrow> error + reads" where
  "expr_visit (Constant v) r = Inr r"
| "expr_visit (ID name) (variables, deref_variables) =
     Inr (List.insert name variables, deref_variables)"
| "expr_visit (UnaryOp op e) (variables, deref_variables) =
     (if truthy (is_deref (UnaryOp op e))
      then Inr (variables, List.insert (the (is_deref (UnaryOp op e))) deref_variables)
      else expr_visit e (variables, deref_variables))"
| "expr_visit (BinaryOp op left right) r =
     (case expr_visit left r of
        Inl e \<Rightarrow> Inl e
      | Inr r1 \<Rightarrow> expr_visit right r1)"
| "expr_visit _ r = Inl UnsupportedLanguageConstruct"

fun ExpressionVisitor_visit :: "node option \<Rightarrow> error + reads" where
  "ExpressionVisitor_visit None = Inl UnsupportedLanguageConstruct"
| "ExpressionVisitor_visit (Some n) = expr_visit n ([], [])"

section \<open>Labels\<close>

text \<open>
  \<open>str\<close> is Python's \<^verbatim>\<open>str\<close> on a natural number: its decimal digits, most
  significant first. A label is the letter l followed by the counter's digits.
\<close>

definition digit :: "nat \<Rightarrow> char" where
  "digit d = ''0123456789'' ! d"

fun str :: "nat \<Rightarrow> string" where
  "str n = (if n < 10 then [digit n] else str (n div 10) @ [digit (n mod 10)])"

declare str.simps [simp del]

definition lbl :: "nat \<Rightarrow> string" where
  "lbl i = ''l'' @ str i"

section \<open>The statement visitor's state\<close>

text \<open>
  A tuple of a relation is a Python string (the relations label, variable, function,
  assignment, condition, return, init and final hold bare strings) or a Python tuple of
  strings. The dictionary \<^verbatim>\<open>edb\<close> maps a relation's name to its list of tuples; a name
  that was never written maps to the empty list, as every key of the constructor does
  at the start (init and final are created by \<^verbatim>\<open>generate_cfg\<close>). The rendering object
  \<^verbatim>\<open>cfg\<close> receives the same nodes and edges with their captions and holds no fact,
  so it is left out.
\<close>

datatype fact = Str string | Tuple "string list"

record visitor =
  availabe_label_index :: nat
  edb :: "string \<Rightarrow> fact list"

definition StatementVisitor :: visitor where
  "StatementVisitor = \<lparr> availabe_label_index = 1, edb = (\<lambda>name. []) \<rparr>"

type_synonym fragment = "string \<times> string list"

text \<open>\<^verbatim>\<open>self.edb[name].append(x)\<close>\<close>

definition edb_append :: "string \<Rightarrow> fact \<Rightarrow> visitor \<Rightarrow> visitor" where
  "edb_append name x s = s\<lparr> edb := (edb s)(name := edb s name @ [x]) \<rparr>"

text \<open>
  \<^verbatim>\<open>_new_label\<close>; \<^verbatim>\<open>_add_elementary_block\<close> is the same on the facts, since the rest
  of it writes to the rendering object.
\<close>

definition new_label :: "visitor \<Rightarrow> string \<times> visitor" where
  "new_label s =
     (let id = lbl (availabe_label_index s)
      in (id, edb_append ''label'' (Str id)
                (s\<lparr> availabe_label_index := availabe_label_index s + 1 \<rparr>)))"

definition add_elementary_block :: "visitor \<Rightarrow> string \<times> visitor" where
  "add_elementary_block s = new_label s"

definition add_arc :: "string \<Rightarrow> string \<Rightarrow> visitor \<Rightarrow> visitor" where
  "add_arc source destination s = edb_append ''flow'' (Tuple [source, destination]) s"

text \<open>The loop of \<^verbatim>\<open>_process_expr\<close> over the names found, each appended once.\<close>

fun add_variables :: "string list \<Rightarrow> visitor \<Rightarrow> visitor" where
  "add_variables [] s = s"
| "add_variables (var # vars) s =
     add_variables vars
       (if Str var \<notin> set (edb s ''variable'') then edb_append ''variable'' (Str var) s
        else s)"

definition process_expr :: "node option \<Rightarrow> visitor \<Rightarrow> error + (reads \<times> visitor)" where
  "process_expr n s =
     (case ExpressionVisitor_visit n of
        Inl e \<Rightarrow> Inl e
      | Inr (variables, deref_variables) \<Rightarrow>
          Inr ((variables, deref_variables),
               add_variables (variables @ deref_variables) s))"

text \<open>
  \<^verbatim>\<open>_add_used\<close>: its two loops run over Python sets built from the arguments, here
  the lists without their duplicates.
\<close>

definition add_used :: "string list \<Rightarrow> string list \<Rightarrow> string \<Rightarrow> visitor \<Rightarrow> visitor" where
  "add_used vars deref_vars label s =
     fold (\<lambda>v. edb_append ''used_deref'' (Tuple [v, label])) (remdups deref_vars)
       (fold (\<lambda>v. edb_append ''used'' (Tuple [v, label])) (remdups (vars @ deref_vars)) s)"

section \<open>The statement visitor\<close>

text \<open>
  \<^verbatim>\<open>visit_If\<close> and \<^verbatim>\<open>visit_While\<close> open with the same four statements once the
  condition is known to be present: a block for the condition, its label appended to
  condition, the scan of the condition, and its reads recorded as used.
\<close>

definition condition_block :: "node \<Rightarrow> visitor \<Rightarrow> error + (string \<times> visitor)" where
  "condition_block cond s =
     (let (cond_label, s1) = add_elementary_block s;
          s2 = edb_append ''condition'' (Str cond_label) s1
      in case process_expr (Some cond) s2 of
           Inl e \<Rightarrow> Inl e
         | Inr ((cond_vars, cond_deref_vars), s3) \<Rightarrow>
             Inr (cond_label, add_used cond_vars cond_deref_vars cond_label s3))"

text \<open>The loop of \<^verbatim>\<open>visit_FuncCall\<close> over the arguments.\<close>

fun process_args :: "node list \<Rightarrow> string \<Rightarrow> visitor \<Rightarrow> error + visitor" where
  "process_args [] label s = Inr s"
| "process_args (arg # args) label s =
     (case process_expr (Some arg) s of
        Inl e \<Rightarrow> Inl e
      | Inr ((arg_vars, arg_deref_vars), s1) \<Rightarrow>
          process_args args label (add_used arg_vars arg_deref_vars label s1))"

text \<open>The three tests of \<^verbatim>\<open>visit_FuncCall\<close> on a sole argument, in the source's order.\<close>

definition call_arg_tags :: "string \<Rightarrow> node \<Rightarrow> string \<Rightarrow> visitor \<Rightarrow> visitor" where
  "call_arg_tags name arg label s =
     (let s1 = (if truthy (is_deref arg)
                then edb_append ''call_arg_deref'' (Tuple [name, the (is_deref arg), label]) s
                else s);
          s2 = (if truthy (is_var arg)
                then edb_append ''call_arg_var'' (Tuple [name, the (is_var arg), label]) s1
                else s1)
      in if truthy (is_const arg)
         then edb_append ''call_arg_const'' (Tuple [name, the (is_const arg), label]) s2
         else s2)"

text \<open>
  An \<^verbatim>\<open>ExprList\<close> object is true as a condition whatever it holds, so \<^verbatim>\<open>if n.args:\<close>
  only tells \<^verbatim>\<open>None\<close> from an argument list.
\<close>

definition visit_FuncCall ::
  "string \<Rightarrow> node list option \<Rightarrow> visitor \<Rightarrow> error + (fragment \<times> visitor)" where
  "visit_FuncCall name args s =
     (let (label, s1) = add_elementary_block s;
          s2 = (if Str name \<notin> set (edb s1 ''function'')
                then edb_append ''function'' (Str name) s1 else s1);
          s3 = edb_append ''call'' (Tuple [name, label]) s2
      in case args of
           None \<Rightarrow> Inr ((label, [label]), s3)
         | Some as \<Rightarrow>
             (case process_args as label s3 of
                Inl e \<Rightarrow> Inl e
              | Inr s4 \<Rightarrow>
                  Inr ((label, [label]),
                       if length as = 1 then call_arg_tags name (hd as) label s4 else s4)))"

text \<open>The four tests of \<^verbatim>\<open>visit_Assignment\<close> on the right-hand side, in the source's order.\<close>

definition rhs_tags :: "node \<Rightarrow> string \<Rightarrow> visitor \<Rightarrow> visitor" where
  "rhs_tags rvalue label s =
     (let s1 = (if truthy (is_deref rvalue)
                then edb_append ''rhs_deref'' (Tuple [the (is_deref rvalue), label]) s
                else s);
          s2 = (if truthy (is_address rvalue)
                then edb_append ''rhs_address'' (Tuple [the (is_address rvalue), label]) s1
                else s1);
          s3 = (if truthy (is_var rvalue)
                then edb_append ''rhs_var'' (Tuple [the (is_var rvalue), label]) s2
                else s2)
      in if truthy (is_const rvalue)
         then edb_append ''rhs_const'' (Tuple [the (is_const rvalue), label]) s3
         else s3)"

definition visit_Assignment ::
  "node \<Rightarrow> node \<Rightarrow> visitor \<Rightarrow> error + (fragment \<times> visitor)" where
  "visit_Assignment lvalue rvalue s =
     (let (label, s1) = add_elementary_block s
      in case process_expr (Some rvalue) s1 of
           Inl e \<Rightarrow> Inl e
         | Inr ((rvalue_vars, rvalue_deref_vars), s2) \<Rightarrow>
             (let s3 = rhs_tags rvalue label (add_used rvalue_vars rvalue_deref_vars label s2)
              in case process_expr (Some lvalue) s3 of
                   Inl e \<Rightarrow> Inl e
                 | Inr ((lvalue_vars, lvalue_deref_vars), s4) \<Rightarrow>
                     if length lvalue_vars = 1 \<and> length lvalue_deref_vars = 0
                     then Inr ((label, [label]),
                               edb_append ''assignment'' (Str label)
                                 (edb_append ''defined'' (Tuple [hd lvalue_vars, label]) s4))
                     else if length lvalue_vars = 0 \<and> length lvalue_deref_vars = 1
                     then Inr ((label, [label]),
                               edb_append ''assignment'' (Str label)
                                 (edb_append ''defined_deref''
                                    (Tuple [hd lvalue_deref_vars, label]) s4))
                     else Inl UnsupportedLanguageConstruct))"

definition visit_Return :: "node option \<Rightarrow> visitor \<Rightarrow> error + (fragment \<times> visitor)" where
  "visit_Return expr s =
     (let (label, s1) = add_elementary_block s
      in case process_expr expr s1 of
           Inl e \<Rightarrow> Inl e
         | Inr ((expr_vars, expr_deref_vars), s2) \<Rightarrow>
             Inr ((label, []),
                  edb_append ''return'' (Str label)
                    (add_used expr_vars expr_deref_vars label s2)))"

text \<open>An edge from each of the given labels to one destination, in order.\<close>

definition add_arcs :: "string list \<Rightarrow> string \<Rightarrow> visitor \<Rightarrow> visitor" where
  "add_arcs sources destination s = fold (\<lambda>prev. add_arc prev destination) sources s"

text \<open>
  \<open>visit\<close> is \<^verbatim>\<open>StatementVisitor.visit\<close>: the dispatch on the node's class, with the
  body of each method that recurses; \<open>visit_stmts\<close> is the loop of \<^verbatim>\<open>visit_Compound\<close>
  over the statements after the first, carrying the open exits of the statement before.
  In \<^verbatim>\<open>visit_FileAST\<close> a sole top-level element that is no function definition reaches
  the last \<^verbatim>\<open>raise\<close>, whose argument reads the name \<^verbatim>\<open>node\<close>; the method's
  parameter is \<^verbatim>\<open>n\<close> and the module binds no \<^verbatim>\<open>node\<close>, so the read itself raises.
  The expression kinds and every other class have no method in this visitor.
\<close>

fun visit :: "node \<Rightarrow> visitor \<Rightarrow> error + (fragment \<times> visitor)"
  and visit_stmts :: "node list \<Rightarrow> string list \<Rightarrow> visitor \<Rightarrow> error + (string list \<times> visitor)"
where
  "visit (FileAST []) s = Inl UnsupportedLanguageConstruct"
| "visit (FileAST (x # y # ext)) s = Inl UnsupportedLanguageConstruct"
| "visit (FileAST [FuncDef name body]) s = visit (FuncDef name body) s"
| "visit (FileAST [_]) s = Inl NameError"
| "visit (FuncDef name body) s =
     (if name = ''main'' then visit body s else Inl AssertionError)"
| "visit (Compound None) s = Inl TypeError"
| "visit (Compound (Some [])) s = Inl ValueError"
| "visit (Compound (Some (head # tail))) s =
     (case visit head s of
        Inl e \<Rightarrow> Inl e
      | Inr ((head_init, head_finals), s1) \<Rightarrow>
          (case visit_stmts tail head_finals s1 of
             Inl e \<Rightarrow> Inl e
           | Inr (prev_finals, s2) \<Rightarrow> Inr ((head_init, prev_finals), s2)))"
| "visit (If None iftrue iffalse) s = Inl UnsupportedLanguageConstruct"
| "visit (If (Some cond) None None) s =
     (case condition_block cond s of
        Inl e \<Rightarrow> Inl e
      | Inr (cond_label, s1) \<Rightarrow> Inl UnsupportedLanguageConstruct)"
| "visit (If (Some cond) (Some iftrue) None) s =
     (case condition_block cond s of
        Inl e \<Rightarrow> Inl e
      | Inr (cond_label, s1) \<Rightarrow>
          (case visit iftrue s1 of
             Inl e \<Rightarrow> Inl e
           | Inr ((iftrue_init, iftrue_finals), s2) \<Rightarrow>
               Inr ((cond_label, iftrue_finals @ [cond_label]),
                    add_arc cond_label iftrue_init s2)))"
| "visit (If (Some cond) None (Some iffalse)) s =
     (case condition_block cond s of
        Inl e \<Rightarrow> Inl e
      | Inr (cond_label, s1) \<Rightarrow>
          (case visit iffalse s1 of
             Inl e \<Rightarrow> Inl e
           | Inr ((iffalse_init, iffalse_finals), s2) \<Rightarrow>
               Inr ((cond_label, [cond_label] @ iffalse_finals),
                    add_arc cond_label iffalse_init s2)))"
| "visit (If (Some cond) (Some iftrue) (Some iffalse)) s =
     (case condition_block cond s of
        Inl e \<Rightarrow> Inl e
      | Inr (cond_label, s1) \<Rightarrow>
          (case visit iftrue s1 of
             Inl e \<Rightarrow> Inl e
           | Inr ((iftrue_init, iftrue_finals), s2) \<Rightarrow>
               (case visit iffalse (add_arc cond_label iftrue_init s2) of
                  Inl e \<Rightarrow> Inl e
                | Inr ((iffalse_init, iffalse_finals), s3) \<Rightarrow>
                    Inr ((cond_label, iftrue_finals @ iffalse_finals),
                         add_arc cond_label iffalse_init s3))))"
| "visit (While None stmt) s = Inl UnsupportedLanguageConstruct"
| "visit (While (Some cond) None) s =
     (case condition_block cond s of
        Inl e \<Rightarrow> Inl e
      | Inr (cond_label, s1) \<Rightarrow> Inr ((cond_label, [cond_label]), s1))"
| "visit (While (Some cond) (Some stmt)) s =
     (case condition_block cond s of
        Inl e \<Rightarrow> Inl e
      | Inr (cond_label, s1) \<Rightarrow>
          (case visit stmt s1 of
             Inl e \<Rightarrow> Inl e
           | Inr ((body_init, body_finals), s2) \<Rightarrow>
               Inr ((cond_label, [cond_label]),
                    add_arcs body_finals cond_label (add_arc cond_label body_init s2))))"
| "visit (FuncCall name args) s = visit_FuncCall name args s"
| "visit (Assignment op lvalue rvalue) s = visit_Assignment lvalue rvalue s"
| "visit (Return expr) s = visit_Return expr s"
| "visit (Constant v) s = Inl UnsupportedLanguageConstruct"
| "visit (ID name) s = Inl UnsupportedLanguageConstruct"
| "visit (UnaryOp op e) s = Inl UnsupportedLanguageConstruct"
| "visit (BinaryOp op left right) s = Inl UnsupportedLanguageConstruct"
| "visit (Other kind) s = Inl UnsupportedLanguageConstruct"
| "visit_stmts [] prev_finals s = Inr (prev_finals, s)"
| "visit_stmts (stmt # tail) prev_finals s =
     (case visit stmt s of
        Inl e \<Rightarrow> Inl e
      | Inr ((cur_init, cur_finals), s1) \<Rightarrow>
          visit_stmts tail cur_finals (add_arcs prev_finals cur_init s1))"

text \<open>
  \<^verbatim>\<open>generate_cfg\<close>: a fresh visitor walks the tree; init is the entry of the result,
  final its open exits together with the return labels, through a Python set. The
  result is the visitor's dictionary, read here through \<open>edb\<close>.
\<close>

definition generate_cfg :: "node \<Rightarrow> error + visitor" where
  "generate_cfg ast =
     (case visit ast StatementVisitor of
        Inl e \<Rightarrow> Inl e
      | Inr ((init, finals), v) \<Rightarrow>
          Inr (v\<lparr> edb := (edb v)(''init'' := [Str init],
                                 ''final'' := remdups (map Str finals @ edb v ''return'')) \<rparr>))"



section \<open>Reading the relations\<close>

text \<open>
  \<open>relation_of\<close> reads one relation off the result of a build, or gives the build's error.
  \<open>main_prog\<close> wraps a list of statements as pycparser does for a file that holds the one
  function \<^verbatim>\<open>main\<close>.
\<close>

definition relation_of :: "error + visitor \<Rightarrow> string \<Rightarrow> error + fact list" where
  "relation_of r name = (case r of Inl x \<Rightarrow> Inl x | Inr e \<Rightarrow> Inr (edb e name))"

definition main_prog :: "node list \<Rightarrow> node" where
  "main_prog body = FileAST [FuncDef ''main'' (Compound (Some body))]"

text \<open>
  The fields of a tuple, and the label it carries. In flow both fields are labels; in the
  relations listed in \<open>labelled_relations\<close> the label is the last field (the only one of a
  bare string); label, variable and function hold no reference to a label.
  \<open>label_refs\<close> collects every label referenced by some tuple of some relation.
\<close>

fun fact_fields :: "fact \<Rightarrow> string list" where
  "fact_fields (Str l) = [l]"
| "fact_fields (Tuple fs) = fs"

definition fact_label :: "fact \<Rightarrow> string" where
  "fact_label t = last (fact_fields t)"

definition labelled_relations :: "string list" where
  "labelled_relations =
     [''assignment'', ''condition'', ''return'', ''call'', ''used'', ''used_deref'',
      ''defined'', ''defined_deref'', ''rhs_var'', ''rhs_const'', ''rhs_deref'',
      ''rhs_address'', ''call_arg_var'', ''call_arg_const'', ''call_arg_deref'',
      ''init'', ''final'']"

definition fact_labels :: "string \<Rightarrow> fact \<Rightarrow> string set" where
  "fact_labels name t =
     (if name = ''flow'' then set (fact_fields t)
      else if name \<in> set labelled_relations then {fact_label t}
      else {})"

definition label_refs :: "visitor \<Rightarrow> string set" where
  "label_refs s = {l. \<exists>name t. t \<in> set (edb s name) \<and> l \<in> fact_labels name t}"

text \<open>
  \<open>strs s name\<close> are the bare strings of a relation; \<open>sources s\<close> are the labels with an
  outgoing edge in flow; \<open>rhs_labels\<close> and \<open>call_arg_labels\<close> list the labels of the shape
  tags, one entry per tuple; \<open>tagged e l name\<close> says that the relation holds a tuple with
  label \<open>l\<close>.
\<close>

definition strs :: "visitor \<Rightarrow> string \<Rightarrow> string set" where
  "strs s name = {l. Str l \<in> set (edb s name)}"

definition sources :: "visitor \<Rightarrow> string set" where
  "sources s = {a. \<exists>b. Tuple [a, b] \<in> set (edb s ''flow'')}"

definition rhs_labels :: "visitor \<Rightarrow> string list" where
  "rhs_labels s =
     map fact_label (edb s ''rhs_var'') @ map fact_label (edb s ''rhs_const'') @
     map fact_label (edb s ''rhs_deref'') @ map fact_label (edb s ''rhs_address'')"

definition call_arg_labels :: "visitor \<Rightarrow> string list" where
  "call_arg_labels s =
     map fact_label (edb s ''call_arg_var'') @ map fact_label (edb s ''call_arg_const'') @
     map fact_label (edb s ''call_arg_deref'')"

definition tagged :: "visitor \<Rightarrow> string \<Rightarrow> string \<Rightarrow> bool" where
  "tagged e l name \<longleftrightarrow> l \<in> fact_label ` set (edb e name)"

section \<open>Example programs\<close>

text \<open>
  \<^verbatim>\<open>main() { while (x) { y = 1; } }\<close>,
  \<^verbatim>\<open>main() { if (x) { y = &z; } else { f( *p); } return y; }\<close>,
  \<^verbatim>\<open>main() { f(); }\<close> and \<^verbatim>\<open>main() { f(x + 1); }\<close>.
\<close>

definition example_loop :: node where
  "example_loop = main_prog
     [While (Some (ID ''x'')) (Some (Compound (Some [Assignment ''='' (ID ''y'') (Constant ''1'')])))]"

definition example_branch :: node where
  "example_branch = main_prog
     [If (Some (ID ''x''))
        (Some (Compound (Some [Assignment ''='' (ID ''y'') (UnaryOp ''&'' (ID ''z''))])))
        (Some (Compound (Some [FuncCall ''f'' (Some [UnaryOp ''*'' (ID ''p'')])]))),
      Return (Some (ID ''y''))]"


definition example_compound_argument :: node where
  "example_compound_argument =
     main_prog [FuncCall ''f'' (Some [BinaryOp ''+'' (ID ''x'') (Constant ''1'')])]"

section \<open>Notions of the proofs\<close>

text \<open>
  \<open>consistent\<close> is what holds of the visitor between two statements: the labels are
  those of the counter values used so far, every referenced label is allocated, no
  return label has an outgoing edge, no label carries two shape tags, and the tuples of
  call, assignment, return and condition have their shapes. \<open>fresh s s'\<close> are the labels
  allocated between two states. \<open>post s (init, finals) s'\<close> is what a visit that starts
  in \<open>s\<close> establishes: the fragment's labels are fresh, edges and return labels were added
  only at fresh labels, no open exit is a return label, and an open exit with an
  outgoing edge is a condition label.
\<close>

definition consistent :: "visitor \<Rightarrow> bool" where
  "consistent s \<longleftrightarrow>
     1 \<le> availabe_label_index s \<and>
     edb s ''label'' = map (\<lambda>i. Str (lbl i)) [1..<availabe_label_index s] \<and>
     label_refs s \<subseteq> strs s ''label'' \<and>
     sources s \<inter> strs s ''return'' = {} \<and>
     distinct (rhs_labels s) \<and> distinct (call_arg_labels s) \<and>
     (\<forall>t\<in>set (edb s ''call''). \<exists>f l. t = Tuple [f, l] \<and> Str f \<in> set (edb s ''function'')) \<and>
     (\<forall>t\<in>set (edb s ''assignment''). \<exists>l. t = Str l) \<and>
     (\<forall>t\<in>set (edb s ''return''). \<exists>l. t = Str l) \<and>
     (\<forall>t\<in>set (edb s ''condition''). \<exists>l. t = Str l)"

definition fresh :: "visitor \<Rightarrow> visitor \<Rightarrow> string set" where
  "fresh s s' = strs s' ''label'' - strs s ''label''"

definition post :: "visitor \<Rightarrow> fragment \<Rightarrow> visitor \<Rightarrow> bool" where
  "post s frag s' \<longleftrightarrow>
     consistent s' \<and> strs s ''label'' \<subseteq> strs s' ''label'' \<and>
     fst frag \<in> fresh s s' \<and> set (snd frag) \<subseteq> fresh s s' \<and>
     sources s' \<subseteq> sources s \<union> fresh s s' \<and>
     strs s' ''return'' \<subseteq> strs s ''return'' \<union> fresh s s' \<and>
     strs s ''condition'' \<subseteq> strs s' ''condition'' \<and>
     set (snd frag) \<inter> strs s' ''return'' = {} \<and>
     (\<forall>l\<in>set (snd frag). l \<in> sources s' \<longrightarrow> l \<in> strs s' ''condition'')"

text \<open>
  An expression carries a shape tag as a right-hand side, or as a sole argument.
\<close>

definition rhs_shaped :: "node \<Rightarrow> bool" where
  "rhs_shaped n \<longleftrightarrow>
     truthy (is_deref n) \<or> truthy (is_address n) \<or> truthy (is_var n) \<or> truthy (is_const n)"

definition arg_shaped :: "node \<Rightarrow> bool" where
  "arg_shaped n \<longleftrightarrow> truthy (is_deref n) \<or> truthy (is_var n) \<or> truthy (is_const n)"

text \<open>
  \<open>quiet l s s'\<close>: between the two states only variable, used and used_deref were
  written, and the only label written was \<open>l\<close>. \<open>assigned\<close> and \<open>called\<close> are the states
  \<^verbatim>\<open>visit_Assignment\<close> returns and \<^verbatim>\<open>visit_FuncCall\<close> reaches before its arguments.
\<close>

definition quiet :: "string \<Rightarrow> visitor \<Rightarrow> visitor \<Rightarrow> bool" where
  "quiet l s s' \<longleftrightarrow>
     availabe_label_index s' = availabe_label_index s \<and>
     label_refs s' \<subseteq> insert l (label_refs s) \<and>
     (\<forall>m. m \<noteq> ''variable'' \<longrightarrow> m \<noteq> ''used'' \<longrightarrow> m \<noteq> ''used_deref''
          \<longrightarrow> edb s' m = edb s m) \<and>
     (\<forall>m. m \<noteq> ''variable'' \<longrightarrow> strs s' m = strs s m) \<and>
     sources s' = sources s \<and>
     rhs_labels s' = rhs_labels s \<and>
     call_arg_labels s' = call_arg_labels s"

definition assigned ::
  "string \<Rightarrow> string \<Rightarrow> string list \<Rightarrow> node \<Rightarrow> string list \<Rightarrow> string list \<Rightarrow> string list
     \<Rightarrow> visitor \<Rightarrow> visitor" where
  "assigned n v ys rv rvs rds xs s =
     (let l = lbl (availabe_label_index s) in
      edb_append ''assignment'' (Str l) (edb_append n (Tuple [v, l])
        (add_variables ys (rhs_tags rv l (add_used rvs rds l
          (add_variables xs (edb_append ''label'' (Str l)
             (s\<lparr> availabe_label_index := Suc (availabe_label_index s) \<rparr>))))))))"

definition called :: "string \<Rightarrow> visitor \<Rightarrow> visitor" where
  "called f s =
     (let l = lbl (availabe_label_index s);
          s1 = edb_append ''label'' (Str l) (s\<lparr> availabe_label_index := Suc (availabe_label_index s) \<rparr>);
          s2 = (if Str f \<notin> set (edb s1 ''function'') then edb_append ''function'' (Str f) s1 else s1)
      in edb_append ''call'' (Tuple [f, l]) s2)"

section \<open>Labels are pairwise distinct\<close>

lemma digit_inj: "a < 10 \<Longrightarrow> b < 10 \<Longrightarrow> digit a = digit b \<Longrightarrow> a = b"
  using nth_eq_iff_index_eq [of "''0123456789''" a b] by (simp add: digit_def)

lemma str_not_Nil: "str n \<noteq> []"
  by (subst str.simps) simp

lemma str_length_one: "length (str n) = Suc 0 \<longleftrightarrow> n < 10"
  by (subst str.simps) (simp add: str_not_Nil)

lemma str_inj: "str m = str n \<Longrightarrow> m = n"
proof (induction m arbitrary: n rule: str.induct)
  case (1 m)
  show ?case
  proof (cases "m < 10")
    case True
    then have "length (str m) = Suc 0" by (simp add: str_length_one)
    with "1.prems" have n: "n < 10" by (simp add: str_length_one)
    from True n "1.prems" show ?thesis
      by (simp add: str.simps [of m] str.simps [of n] digit_inj)
  next
    case False
    then have "length (str m) \<noteq> Suc 0" by (simp add: str_length_one)
    with "1.prems" have n: "\<not> n < 10" by (simp add: str_length_one)
    from False n "1.prems"
    have e: "str (m div 10) @ [digit (m mod 10)] = str (n div 10) @ [digit (n mod 10)]"
      by (simp add: str.simps [of m] str.simps [of n])
    then have "str (m div 10) = str (n div 10)" and d: "digit (m mod 10) = digit (n mod 10)"
      by simp_all
    with "1.IH" False have q: "m div 10 = n div 10" by simp
    from d have r: "m mod 10 = n mod 10" by (rule digit_inj [rotated 2]) simp_all
    from q r show ?thesis by (metis div_mult_mod_eq)
  qed
qed

lemma lbl_inj: "lbl i = lbl j \<longleftrightarrow> i = j"
  by (auto simp: lbl_def dest: str_inj)

section \<open>Referenced labels\<close>

lemma fact_labels_simps [simp]:
  "fact_labels ''flow'' (Tuple [a, b]) = {a, b}"
  "fact_labels ''label'' t = {}"
  "fact_labels ''variable'' t = {}"
  "fact_labels ''function'' t = {}"
  "fact_labels ''assignment'' (Str l) = {l}"
  "fact_labels ''condition'' (Str l) = {l}"
  "fact_labels ''return'' (Str l) = {l}"
  "fact_labels ''call'' (Tuple [f, l]) = {l}"
  "fact_labels ''used'' (Tuple [v, l]) = {l}"
  "fact_labels ''used_deref'' (Tuple [v, l]) = {l}"
  "fact_labels ''defined'' (Tuple [v, l]) = {l}"
  "fact_labels ''defined_deref'' (Tuple [v, l]) = {l}"
  "fact_labels ''rhs_var'' (Tuple [v, l]) = {l}"
  "fact_labels ''rhs_const'' (Tuple [v, l]) = {l}"
  "fact_labels ''rhs_deref'' (Tuple [v, l]) = {l}"
  "fact_labels ''rhs_address'' (Tuple [v, l]) = {l}"
  "fact_labels ''call_arg_var'' (Tuple [f, v, l]) = {l}"
  "fact_labels ''call_arg_const'' (Tuple [f, v, l]) = {l}"
  "fact_labels ''call_arg_deref'' (Tuple [f, v, l]) = {l}"
  by (simp_all add: fact_labels_def labelled_relations_def fact_label_def)

lemma label_refs_I:
  assumes "t \<in> set (edb s name)" and "name \<in> set labelled_relations"
  shows "fact_label t \<in> label_refs s"
proof -
  from assms(2) have "name \<noteq> ''flow''"
    by (auto simp: labelled_relations_def)
  with assms(2) have "fact_labels name t = {fact_label t}"
    by (simp add: fact_labels_def)
  with assms(1) show ?thesis
    unfolding label_refs_def by blast
qed

lemma labelled_relations_mem [simp]:
  "''assignment'' \<in> set labelled_relations" "''condition'' \<in> set labelled_relations"
  "''return'' \<in> set labelled_relations" "''call'' \<in> set labelled_relations"
  "''used'' \<in> set labelled_relations" "''used_deref'' \<in> set labelled_relations"
  "''defined'' \<in> set labelled_relations" "''defined_deref'' \<in> set labelled_relations"
  "''rhs_var'' \<in> set labelled_relations" "''rhs_const'' \<in> set labelled_relations"
  "''rhs_deref'' \<in> set labelled_relations" "''rhs_address'' \<in> set labelled_relations"
  "''call_arg_var'' \<in> set labelled_relations" "''call_arg_const'' \<in> set labelled_relations"
  "''call_arg_deref'' \<in> set labelled_relations"
  "''init'' \<in> set labelled_relations" "''final'' \<in> set labelled_relations"
  by (simp_all add: labelled_relations_def)

lemma rhs_labels_refs: "set (rhs_labels s) \<subseteq> label_refs s"
  by (auto simp: rhs_labels_def intro: label_refs_I)

lemma call_arg_labels_refs: "set (call_arg_labels s) \<subseteq> label_refs s"
  by (auto simp: call_arg_labels_def intro: label_refs_I)

lemma strs_refs:
  "strs s ''return'' \<subseteq> label_refs s" "strs s ''condition'' \<subseteq> label_refs s"
  using label_refs_I [of "Str l" s "''return''" for l] label_refs_I [of "Str l" s "''condition''" for l]
  by (auto simp: strs_def fact_label_def)

lemma sources_refs: "sources s \<subseteq> label_refs s"
proof
  fix a assume "a \<in> sources s"
  then obtain b where "Tuple [a, b] \<in> set (edb s ''flow'')"
    unfolding sources_def by blast
  moreover have "a \<in> fact_labels ''flow'' (Tuple [a, b])" by simp
  ultimately show "a \<in> label_refs s"
    unfolding label_refs_def by blast
qed

section \<open>What each primitive changes\<close>

lemma edb_append_simps [simp]:
  "availabe_label_index (edb_append n x s) = availabe_label_index s"
  "edb (edb_append n x s) m = (if m = n then edb s n @ [x] else edb s m)"
  by (simp_all add: edb_append_def)

lemma label_refs_append [simp]:
  "label_refs (edb_append n x s) = label_refs s \<union> fact_labels n x"
proof -
  have "l \<in> label_refs (edb_append n x s) \<longleftrightarrow> l \<in> label_refs s \<union> fact_labels n x" for l
    unfolding label_refs_def by (auto split: if_splits)
  then show ?thesis by blast
qed

lemma strs_append [simp]:
  "strs (edb_append n (Str l) s) m = (if m = n then insert l (strs s m) else strs s m)"
  "strs (edb_append n (Tuple fs) s) m = strs s m"
  by (auto simp: strs_def)

lemma sources_append [simp]:
  "sources (edb_append ''flow'' (Tuple [a, b]) s) = insert a (sources s)"
  "n \<noteq> ''flow'' \<Longrightarrow> sources (edb_append n x s) = sources s"
  by (auto simp: sources_def)

lemma rhs_labels_append [simp]:
  "n \<notin> set [''rhs_var'', ''rhs_const'', ''rhs_deref'', ''rhs_address'']
   \<Longrightarrow> rhs_labels (edb_append n x s) = rhs_labels s"
  by (auto simp: rhs_labels_def)

lemma call_arg_labels_append [simp]:
  "n \<notin> set [''call_arg_var'', ''call_arg_const'', ''call_arg_deref'']
   \<Longrightarrow> call_arg_labels (edb_append n x s) = call_arg_labels s"
  by (auto simp: call_arg_labels_def)

lemma index_update_obs [simp]:
  "label_refs (s\<lparr> availabe_label_index := k \<rparr>) = label_refs s"
  "strs (s\<lparr> availabe_label_index := k \<rparr>) m = strs s m"
  "sources (s\<lparr> availabe_label_index := k \<rparr>) = sources s"
  "rhs_labels (s\<lparr> availabe_label_index := k \<rparr>) = rhs_labels s"
  "call_arg_labels (s\<lparr> availabe_label_index := k \<rparr>) = call_arg_labels s"
  by (simp_all add: label_refs_def strs_def sources_def rhs_labels_def call_arg_labels_def)

lemma add_variables_obs [simp]:
  "availabe_label_index (add_variables vs s) = availabe_label_index s"
  "label_refs (add_variables vs s) = label_refs s"
  "m \<noteq> ''variable'' \<Longrightarrow> edb (add_variables vs s) m = edb s m"
  "m \<noteq> ''variable'' \<Longrightarrow> strs (add_variables vs s) m = strs s m"
  "sources (add_variables vs s) = sources s"
  "rhs_labels (add_variables vs s) = rhs_labels s"
  "call_arg_labels (add_variables vs s) = call_arg_labels s"
  by (induction vs arbitrary: s; simp)+

lemma fold_append_obs:
  "availabe_label_index (fold (\<lambda>v. edb_append n (Tuple [v, l])) vs s) = availabe_label_index s"
  "edb (fold (\<lambda>v. edb_append n (Tuple [v, l])) vs s) m =
     (if m = n then edb s n @ map (\<lambda>v. Tuple [v, l]) vs else edb s m)"
  "label_refs (fold (\<lambda>v. edb_append n (Tuple [v, l])) vs s) =
      label_refs s \<union> (\<Union>v\<in>set vs. fact_labels n (Tuple [v, l]))"
  "strs (fold (\<lambda>v. edb_append n (Tuple [v, l])) vs s) m = strs s m"
  "n \<noteq> ''flow'' \<Longrightarrow> sources (fold (\<lambda>v. edb_append n (Tuple [v, l])) vs s) = sources s"
  "n \<notin> set [''rhs_var'', ''rhs_const'', ''rhs_deref'', ''rhs_address'']
   \<Longrightarrow> rhs_labels (fold (\<lambda>v. edb_append n (Tuple [v, l])) vs s) = rhs_labels s"
  "n \<notin> set [''call_arg_var'', ''call_arg_const'', ''call_arg_deref'']
   \<Longrightarrow> call_arg_labels (fold (\<lambda>v. edb_append n (Tuple [v, l])) vs s) = call_arg_labels s"
  by (induction vs arbitrary: s; auto)+

lemma add_used_obs [simp]:
  "availabe_label_index (add_used vs ds l s) = availabe_label_index s"
  "label_refs (add_used vs ds l s) =
     (if vs = [] \<and> ds = [] then label_refs s else insert l (label_refs s))"
  "m \<noteq> ''used'' \<Longrightarrow> m \<noteq> ''used_deref'' \<Longrightarrow> edb (add_used vs ds l s) m = edb s m"
  "strs (add_used vs ds l s) m = strs s m"
  "sources (add_used vs ds l s) = sources s"
  "rhs_labels (add_used vs ds l s) = rhs_labels s"
  "call_arg_labels (add_used vs ds l s) = call_arg_labels s"
  by (auto simp: add_used_def fold_append_obs)

section \<open>The statements without sub-statements\<close>

lemma consistent_fresh: "consistent s \<Longrightarrow> lbl (availabe_label_index s) \<notin> strs s ''label''"
  by (auto simp: consistent_def strs_def lbl_inj)

lemma consistent_fresh_refs:
  assumes "consistent s"
  shows "lbl (availabe_label_index s) \<notin> label_refs s"
    and "lbl (availabe_label_index s) \<notin> sources s"
    and "lbl (availabe_label_index s) \<notin> strs s ''return''"
    and "lbl (availabe_label_index s) \<notin> set (rhs_labels s)"
    and "lbl (availabe_label_index s) \<notin> set (call_arg_labels s)"
  using consistent_fresh [OF assms] assms sources_refs [of s] strs_refs [of s]
    rhs_labels_refs [of s] call_arg_labels_refs [of s]
  by (auto simp: consistent_def)

lemma visit_Return_post:
  assumes "consistent s" and "visit_Return e s = Inr (frag, s')"
  shows "post s frag s'"
proof -
  let ?l = "lbl (availabe_label_index s)"
  from assms(2) obtain vs ds where
    frag: "frag = (?l, [])" and
    s': "s' = edb_append ''return'' (Str ?l) (add_used vs ds ?l (add_variables (vs @ ds)
           (edb_append ''label'' (Str ?l) (s\<lparr> availabe_label_index := Suc (availabe_label_index s) \<rparr>))))"
    by (auto simp: visit_Return_def add_elementary_block_def process_expr_def new_label_def Let_def
        split: sum.splits prod.splits)
  from consistent_fresh [OF assms(1)] consistent_fresh_refs [OF assms(1)] assms(1) show ?thesis
    unfolding post_def consistent_def fresh_def frag s'
    by auto
qed

subsection \<open>The shape tests exclude each other\<close>

lemma truthy_is_deref: "truthy (is_deref n) \<Longrightarrow> \<exists>name. name \<noteq> [] \<and> n = UnaryOp ''*'' (ID name)"
  by (cases n rule: is_deref.cases) (auto split: if_splits)

lemma truthy_is_address: "truthy (is_address n) \<Longrightarrow> \<exists>name. name \<noteq> [] \<and> n = UnaryOp ''&'' (ID name)"
  by (cases n rule: is_address.cases) (auto split: if_splits)

lemma truthy_is_var: "truthy (is_var n) \<Longrightarrow> \<exists>name. name \<noteq> [] \<and> n = ID name"
  by (cases n) auto

lemma truthy_is_const: "truthy (is_const n) \<Longrightarrow> \<exists>v. v \<noteq> [] \<and> n = Constant v"
  by (cases n) auto

lemma shapes_exclusive:
  "truthy (is_deref n) \<Longrightarrow> \<not> truthy (is_address n) \<and> \<not> truthy (is_var n) \<and> \<not> truthy (is_const n)"
  "truthy (is_address n) \<Longrightarrow> \<not> truthy (is_deref n) \<and> \<not> truthy (is_var n) \<and> \<not> truthy (is_const n)"
  "truthy (is_var n) \<Longrightarrow> \<not> truthy (is_deref n) \<and> \<not> truthy (is_address n) \<and> \<not> truthy (is_const n)"
  "truthy (is_const n) \<Longrightarrow> \<not> truthy (is_deref n) \<and> \<not> truthy (is_address n) \<and> \<not> truthy (is_var n)"
  by (auto dest!: truthy_is_deref truthy_is_address truthy_is_var truthy_is_const)

lemma rhs_labels_tag:
  "set (rhs_labels (edb_append ''rhs_var'' (Tuple [v, l]) s)) = insert l (set (rhs_labels s))"
  "distinct (rhs_labels (edb_append ''rhs_var'' (Tuple [v, l]) s)) \<longleftrightarrow>
     distinct (rhs_labels s) \<and> l \<notin> set (rhs_labels s)"
  "set (rhs_labels (edb_append ''rhs_const'' (Tuple [v, l]) s)) = insert l (set (rhs_labels s))"
  "distinct (rhs_labels (edb_append ''rhs_const'' (Tuple [v, l]) s)) \<longleftrightarrow>
     distinct (rhs_labels s) \<and> l \<notin> set (rhs_labels s)"
  "set (rhs_labels (edb_append ''rhs_deref'' (Tuple [v, l]) s)) = insert l (set (rhs_labels s))"
  "distinct (rhs_labels (edb_append ''rhs_deref'' (Tuple [v, l]) s)) \<longleftrightarrow>
     distinct (rhs_labels s) \<and> l \<notin> set (rhs_labels s)"
  "set (rhs_labels (edb_append ''rhs_address'' (Tuple [v, l]) s)) = insert l (set (rhs_labels s))"
  "distinct (rhs_labels (edb_append ''rhs_address'' (Tuple [v, l]) s)) \<longleftrightarrow>
     distinct (rhs_labels s) \<and> l \<notin> set (rhs_labels s)"
  by (auto simp: rhs_labels_def fact_label_def)

lemma call_arg_labels_tag:
  "set (call_arg_labels (edb_append ''call_arg_var'' (Tuple [f, v, l]) s)) = insert l (set (call_arg_labels s))"
  "distinct (call_arg_labels (edb_append ''call_arg_var'' (Tuple [f, v, l]) s)) \<longleftrightarrow>
     distinct (call_arg_labels s) \<and> l \<notin> set (call_arg_labels s)"
  "set (call_arg_labels (edb_append ''call_arg_const'' (Tuple [f, v, l]) s)) = insert l (set (call_arg_labels s))"
  "distinct (call_arg_labels (edb_append ''call_arg_const'' (Tuple [f, v, l]) s)) \<longleftrightarrow>
     distinct (call_arg_labels s) \<and> l \<notin> set (call_arg_labels s)"
  "set (call_arg_labels (edb_append ''call_arg_deref'' (Tuple [f, v, l]) s)) = insert l (set (call_arg_labels s))"
  "distinct (call_arg_labels (edb_append ''call_arg_deref'' (Tuple [f, v, l]) s)) \<longleftrightarrow>
     distinct (call_arg_labels s) \<and> l \<notin> set (call_arg_labels s)"
  by (auto simp: call_arg_labels_def fact_label_def)

lemma rhs_tags_eq:
  "truthy (is_deref rv) \<Longrightarrow>
     rhs_tags rv l s = edb_append ''rhs_deref'' (Tuple [the (is_deref rv), l]) s"
  "truthy (is_address rv) \<Longrightarrow>
     rhs_tags rv l s = edb_append ''rhs_address'' (Tuple [the (is_address rv), l]) s"
  "truthy (is_var rv) \<Longrightarrow>
     rhs_tags rv l s = edb_append ''rhs_var'' (Tuple [the (is_var rv), l]) s"
  "truthy (is_const rv) \<Longrightarrow>
     rhs_tags rv l s = edb_append ''rhs_const'' (Tuple [the (is_const rv), l]) s"
  "\<not> rhs_shaped rv \<Longrightarrow> rhs_tags rv l s = s"
proof -
  show "rhs_tags rv l s = edb_append ''rhs_deref'' (Tuple [the (is_deref rv), l]) s"
    if "truthy (is_deref rv)"
    using truthy_is_deref [OF that] by (auto simp: rhs_tags_def)
  show "rhs_tags rv l s = edb_append ''rhs_address'' (Tuple [the (is_address rv), l]) s"
    if "truthy (is_address rv)"
    using truthy_is_address [OF that] by (auto simp: rhs_tags_def)
  show "rhs_tags rv l s = edb_append ''rhs_var'' (Tuple [the (is_var rv), l]) s"
    if "truthy (is_var rv)"
    using truthy_is_var [OF that] by (auto simp: rhs_tags_def)
  show "rhs_tags rv l s = edb_append ''rhs_const'' (Tuple [the (is_const rv), l]) s"
    if "truthy (is_const rv)"
    using truthy_is_const [OF that] by (auto simp: rhs_tags_def)
  show "rhs_tags rv l s = s" if "\<not> rhs_shaped rv"
    using that by (simp add: rhs_tags_def rhs_shaped_def)
qed

lemma rhs_tags_obs [simp]:
  "availabe_label_index (rhs_tags rv l s) = availabe_label_index s"
  "label_refs (rhs_tags rv l s) = (if rhs_shaped rv then insert l (label_refs s) else label_refs s)"
  "m \<notin> set [''rhs_var'', ''rhs_const'', ''rhs_deref'', ''rhs_address'']
     \<Longrightarrow> edb (rhs_tags rv l s) m = edb s m"
  "strs (rhs_tags rv l s) m = strs s m"
  "sources (rhs_tags rv l s) = sources s"
  "call_arg_labels (rhs_tags rv l s) = call_arg_labels s"
  "set (rhs_labels (rhs_tags rv l s)) =
     (if rhs_shaped rv then insert l (set (rhs_labels s)) else set (rhs_labels s))"
  "distinct (rhs_labels (rhs_tags rv l s)) \<longleftrightarrow>
     distinct (rhs_labels s) \<and> (rhs_shaped rv \<longrightarrow> l \<notin> set (rhs_labels s))"
proof -
  consider (deref) "truthy (is_deref rv)" | (address) "truthy (is_address rv)"
    | (var) "truthy (is_var rv)" | (const) "truthy (is_const rv)" | (none) "\<not> rhs_shaped rv"
    unfolding rhs_shaped_def by blast
  then have
    "availabe_label_index (rhs_tags rv l s) = availabe_label_index s \<and>
     label_refs (rhs_tags rv l s) = (if rhs_shaped rv then insert l (label_refs s) else label_refs s) \<and>
     (m \<notin> set [''rhs_var'', ''rhs_const'', ''rhs_deref'', ''rhs_address'']
        \<longrightarrow> edb (rhs_tags rv l s) m = edb s m) \<and>
     strs (rhs_tags rv l s) m = strs s m \<and>
     sources (rhs_tags rv l s) = sources s \<and>
     call_arg_labels (rhs_tags rv l s) = call_arg_labels s \<and>
     set (rhs_labels (rhs_tags rv l s)) =
       (if rhs_shaped rv then insert l (set (rhs_labels s)) else set (rhs_labels s)) \<and>
     (distinct (rhs_labels (rhs_tags rv l s)) \<longleftrightarrow>
       distinct (rhs_labels s) \<and> (rhs_shaped rv \<longrightarrow> l \<notin> set (rhs_labels s)))"
  proof cases
    case deref
    then show ?thesis by (simp add: rhs_tags_eq rhs_labels_tag rhs_shaped_def)
  next
    case address
    then show ?thesis by (simp add: rhs_tags_eq rhs_labels_tag rhs_shaped_def)
  next
    case var
    then show ?thesis by (simp add: rhs_tags_eq rhs_labels_tag rhs_shaped_def)
  next
    case const
    then show ?thesis by (simp add: rhs_tags_eq rhs_labels_tag rhs_shaped_def)
  next
    case none
    then show ?thesis by (simp add: rhs_tags_eq)
  qed
  then show
    "availabe_label_index (rhs_tags rv l s) = availabe_label_index s"
    "label_refs (rhs_tags rv l s) = (if rhs_shaped rv then insert l (label_refs s) else label_refs s)"
    "m \<notin> set [''rhs_var'', ''rhs_const'', ''rhs_deref'', ''rhs_address'']
       \<Longrightarrow> edb (rhs_tags rv l s) m = edb s m"
    "strs (rhs_tags rv l s) m = strs s m"
    "sources (rhs_tags rv l s) = sources s"
    "call_arg_labels (rhs_tags rv l s) = call_arg_labels s"
    "set (rhs_labels (rhs_tags rv l s)) =
       (if rhs_shaped rv then insert l (set (rhs_labels s)) else set (rhs_labels s))"
    "distinct (rhs_labels (rhs_tags rv l s)) \<longleftrightarrow>
       distinct (rhs_labels s) \<and> (rhs_shaped rv \<longrightarrow> l \<notin> set (rhs_labels s))"
    by blast+
qed

lemma call_arg_tags_eq:
  "truthy (is_deref a) \<Longrightarrow>
     call_arg_tags f a l s = edb_append ''call_arg_deref'' (Tuple [f, the (is_deref a), l]) s"
  "truthy (is_var a) \<Longrightarrow>
     call_arg_tags f a l s = edb_append ''call_arg_var'' (Tuple [f, the (is_var a), l]) s"
  "truthy (is_const a) \<Longrightarrow>
     call_arg_tags f a l s = edb_append ''call_arg_const'' (Tuple [f, the (is_const a), l]) s"
  "\<not> arg_shaped a \<Longrightarrow> call_arg_tags f a l s = s"
proof -
  show "call_arg_tags f a l s = edb_append ''call_arg_deref'' (Tuple [f, the (is_deref a), l]) s"
    if "truthy (is_deref a)"
    using truthy_is_deref [OF that] by (auto simp: call_arg_tags_def)
  show "call_arg_tags f a l s = edb_append ''call_arg_var'' (Tuple [f, the (is_var a), l]) s"
    if "truthy (is_var a)"
    using truthy_is_var [OF that] by (auto simp: call_arg_tags_def)
  show "call_arg_tags f a l s = edb_append ''call_arg_const'' (Tuple [f, the (is_const a), l]) s"
    if "truthy (is_const a)"
    using truthy_is_const [OF that] by (auto simp: call_arg_tags_def)
  show "call_arg_tags f a l s = s" if "\<not> arg_shaped a"
    using that by (simp add: call_arg_tags_def arg_shaped_def)
qed

lemma call_arg_tags_obs [simp]:
  "availabe_label_index (call_arg_tags f a l s) = availabe_label_index s"
  "label_refs (call_arg_tags f a l s) = (if arg_shaped a then insert l (label_refs s) else label_refs s)"
  "m \<notin> set [''call_arg_var'', ''call_arg_const'', ''call_arg_deref'']
     \<Longrightarrow> edb (call_arg_tags f a l s) m = edb s m"
  "strs (call_arg_tags f a l s) m = strs s m"
  "sources (call_arg_tags f a l s) = sources s"
  "rhs_labels (call_arg_tags f a l s) = rhs_labels s"
  "set (call_arg_labels (call_arg_tags f a l s)) =
     (if arg_shaped a then insert l (set (call_arg_labels s)) else set (call_arg_labels s))"
  "distinct (call_arg_labels (call_arg_tags f a l s)) \<longleftrightarrow>
     distinct (call_arg_labels s) \<and> (arg_shaped a \<longrightarrow> l \<notin> set (call_arg_labels s))"
proof -
  consider (deref) "truthy (is_deref a)" | (var) "truthy (is_var a)"
    | (const) "truthy (is_const a)" | (none) "\<not> arg_shaped a"
    unfolding arg_shaped_def by blast
  then have
    "availabe_label_index (call_arg_tags f a l s) = availabe_label_index s \<and>
     label_refs (call_arg_tags f a l s) = (if arg_shaped a then insert l (label_refs s) else label_refs s) \<and>
     (m \<notin> set [''call_arg_var'', ''call_arg_const'', ''call_arg_deref'']
        \<longrightarrow> edb (call_arg_tags f a l s) m = edb s m) \<and>
     strs (call_arg_tags f a l s) m = strs s m \<and>
     sources (call_arg_tags f a l s) = sources s \<and>
     rhs_labels (call_arg_tags f a l s) = rhs_labels s \<and>
     set (call_arg_labels (call_arg_tags f a l s)) =
       (if arg_shaped a then insert l (set (call_arg_labels s)) else set (call_arg_labels s)) \<and>
     (distinct (call_arg_labels (call_arg_tags f a l s)) \<longleftrightarrow>
       distinct (call_arg_labels s) \<and> (arg_shaped a \<longrightarrow> l \<notin> set (call_arg_labels s)))"
  proof cases
    case deref
    then show ?thesis by (simp add: call_arg_tags_eq call_arg_labels_tag arg_shaped_def)
  next
    case var
    then show ?thesis by (simp add: call_arg_tags_eq call_arg_labels_tag arg_shaped_def)
  next
    case const
    then show ?thesis by (simp add: call_arg_tags_eq call_arg_labels_tag arg_shaped_def)
  next
    case none
    then show ?thesis by (simp add: call_arg_tags_eq)
  qed
  then show
    "availabe_label_index (call_arg_tags f a l s) = availabe_label_index s"
    "label_refs (call_arg_tags f a l s) = (if arg_shaped a then insert l (label_refs s) else label_refs s)"
    "m \<notin> set [''call_arg_var'', ''call_arg_const'', ''call_arg_deref'']
       \<Longrightarrow> edb (call_arg_tags f a l s) m = edb s m"
    "strs (call_arg_tags f a l s) m = strs s m"
    "sources (call_arg_tags f a l s) = sources s"
    "rhs_labels (call_arg_tags f a l s) = rhs_labels s"
    "set (call_arg_labels (call_arg_tags f a l s)) =
       (if arg_shaped a then insert l (set (call_arg_labels s)) else set (call_arg_labels s))"
    "distinct (call_arg_labels (call_arg_tags f a l s)) \<longleftrightarrow>
       distinct (call_arg_labels s) \<and> (arg_shaped a \<longrightarrow> l \<notin> set (call_arg_labels s))"
    by blast+
qed

lemma add_arc_obs [simp]:
  "availabe_label_index (add_arc a b s) = availabe_label_index s"
  "label_refs (add_arc a b s) = insert a (insert b (label_refs s))"
  "m \<noteq> ''flow'' \<Longrightarrow> edb (add_arc a b s) m = edb s m"
  "strs (add_arc a b s) m = strs s m"
  "sources (add_arc a b s) = insert a (sources s)"
  "rhs_labels (add_arc a b s) = rhs_labels s"
  "call_arg_labels (add_arc a b s) = call_arg_labels s"
  by (auto simp: add_arc_def)

lemma add_arcs_obs [simp]:
  "availabe_label_index (add_arcs P d s) = availabe_label_index s"
  "label_refs (add_arcs P d s) = (if P = [] then label_refs s else set P \<union> insert d (label_refs s))"
  "m \<noteq> ''flow'' \<Longrightarrow> edb (add_arcs P d s) m = edb s m"
  "strs (add_arcs P d s) m = strs s m"
  "sources (add_arcs P d s) = set P \<union> sources s"
  "rhs_labels (add_arcs P d s) = rhs_labels s"
  "call_arg_labels (add_arcs P d s) = call_arg_labels s"
  unfolding add_arcs_def by (induction P arbitrary: s; auto)+

subsection \<open>Scans and argument lists\<close>

lemma process_expr_eq:
  "process_expr e s = Inr (r, s1) \<Longrightarrow> s1 = add_variables (fst r @ snd r) s"
  by (auto simp: process_expr_def split: sum.splits)

lemma quiet_step: "quiet l s (add_used vs ds l (add_variables xs s))"
  by (auto simp: quiet_def)

lemma quiet_trans:
  assumes "quiet l s s1" and "quiet l s1 s2"
  shows "quiet l s s2"
proof -
  have a: "label_refs s1 \<subseteq> insert l (label_refs s)"
    using assms(1) by (simp add: quiet_def)
  have b: "label_refs s2 \<subseteq> insert l (label_refs s1)"
    using assms(2) by (simp add: quiet_def)
  from a b have "label_refs s2 \<subseteq> insert l (label_refs s)"
    by blast
  with assms show ?thesis
    by (simp add: quiet_def)
qed

lemma process_args_quiet: "process_args as l s = Inr s' \<Longrightarrow> quiet l s s'"
proof (induction as arbitrary: s)
  case Nil
  then show ?case by (auto simp: quiet_def)
next
  case (Cons a as)
  from Cons.prems obtain r s1 where
    e: "process_expr (Some a) s = Inr (r, s1)" and
    rest: "process_args as l (add_used (fst r) (snd r) l s1) = Inr s'"
    by (auto split: sum.splits)
  from process_expr_eq [OF e] have "quiet l s (add_used (fst r) (snd r) l s1)"
    by (simp add: quiet_step)
  with Cons.IH [OF rest] show ?case by (rule quiet_trans [rotated])
qed

subsection \<open>Assignments, calls and conditions\<close>

lemma visit_Assignment_Inr:
  assumes "visit_Assignment lv rv s = Inr (frag, s')"
  shows "frag = (lbl (availabe_label_index s), [lbl (availabe_label_index s)]) \<and>
    (\<exists>rvs rds xs ys v. s' = assigned ''defined'' v ys rv rvs rds xs s \<or>
                        s' = assigned ''defined_deref'' v ys rv rvs rds xs s)"
proof -
  let ?l = "lbl (availabe_label_index s)"
  let ?s1 = "edb_append ''label'' (Str ?l) (s\<lparr> availabe_label_index := Suc (availabe_label_index s) \<rparr>)"
  from assms obtain rvs rds s2 where
    r: "process_expr (Some rv) ?s1 = Inr ((rvs, rds), s2)"
    by (auto simp: visit_Assignment_def add_elementary_block_def new_label_def Let_def
        split: sum.splits)
  let ?s3 = "rhs_tags rv ?l (add_used rvs rds ?l s2)"
  from assms r obtain lvs lds s4 where
    l: "process_expr (Some lv) ?s3 = Inr ((lvs, lds), s4)"
    by (auto simp: visit_Assignment_def add_elementary_block_def new_label_def Let_def
        split: sum.splits)
  from process_expr_eq [OF r] have s2: "s2 = add_variables (rvs @ rds) ?s1" by simp
  from process_expr_eq [OF l] have s4: "s4 = add_variables (lvs @ lds) ?s3" by simp
  from assms r l have
    "frag = (?l, [?l]) \<and>
     (s' = edb_append ''assignment'' (Str ?l) (edb_append ''defined'' (Tuple [hd lvs, ?l]) s4) \<or>
      s' = edb_append ''assignment'' (Str ?l) (edb_append ''defined_deref'' (Tuple [hd lds, ?l]) s4))"
    by (auto simp: visit_Assignment_def add_elementary_block_def new_label_def Let_def
        split: if_splits)
  then show ?thesis
    unfolding assigned_def Let_def s4 s2 by blast
qed

lemma visit_Assignment_post:
  assumes "consistent s" and "visit_Assignment lv rv s = Inr (frag, s')"
  shows "post s frag s'"
proof -
  let ?l = "lbl (availabe_label_index s)"
  from visit_Assignment_Inr [OF assms(2)] obtain rvs rds xs ys v where
    frag: "frag = (?l, [?l])" and
    s': "s' = assigned ''defined'' v ys rv rvs rds xs s \<or>
         s' = assigned ''defined_deref'' v ys rv rvs rds xs s"
    by blast
  from s' consistent_fresh [OF assms(1)] consistent_fresh_refs [OF assms(1)] assms(1) show ?thesis
    unfolding post_def consistent_def fresh_def frag assigned_def Let_def
    by (elim disjE) auto
qed

lemma quiet_refl: "quiet l s s"
  by (auto simp: quiet_def)

lemma visit_FuncCall_Inr:
  assumes "visit_FuncCall f args s = Inr (frag, s')"
  shows "frag = (lbl (availabe_label_index s), [lbl (availabe_label_index s)]) \<and>
    (\<exists>s4. quiet (lbl (availabe_label_index s)) (called f s) s4 \<and>
          (s' = s4 \<or> (\<exists>a. s' = call_arg_tags f a (lbl (availabe_label_index s)) s4)))"
proof (cases args)
  case None
  with assms have "frag = (lbl (availabe_label_index s), [lbl (availabe_label_index s)])"
    and "s' = called f s"
    by (auto simp: visit_FuncCall_def add_elementary_block_def new_label_def Let_def called_def)
  then show ?thesis using quiet_refl by blast
next
  case (Some as)
  let ?l = "lbl (availabe_label_index s)"
  from assms Some obtain s4 where
    p: "process_args as ?l (called f s) = Inr s4"
    by (auto simp: visit_FuncCall_def add_elementary_block_def new_label_def Let_def called_def
        split: sum.splits)
  from assms Some p have "frag = (?l, [?l])"
    and "s' = (if length as = 1 then call_arg_tags f (hd as) ?l s4 else s4)"
    by (auto simp: visit_FuncCall_def add_elementary_block_def new_label_def Let_def called_def)
  with process_args_quiet [OF p] show ?thesis
    by (cases "length as = 1") auto
qed

lemma called_obs:
  "availabe_label_index (called f s) = Suc (availabe_label_index s)"
  "label_refs (called f s) = insert (lbl (availabe_label_index s)) (label_refs s)"
  "edb (called f s) ''label'' = edb s ''label'' @ [Str (lbl (availabe_label_index s))]"
  "edb (called f s) ''call'' = edb s ''call'' @ [Tuple [f, lbl (availabe_label_index s)]]"
  "set (edb (called f s) ''function'') = insert (Str f) (set (edb s ''function''))"
  "edb (called f s) ''assignment'' = edb s ''assignment''"
  "edb (called f s) ''return'' = edb s ''return''"
  "edb (called f s) ''condition'' = edb s ''condition''"
  "strs (called f s) ''label'' = insert (lbl (availabe_label_index s)) (strs s ''label'')"
  "strs (called f s) ''return'' = strs s ''return''"
  "strs (called f s) ''condition'' = strs s ''condition''"
  "sources (called f s) = sources s"
  "rhs_labels (called f s) = rhs_labels s"
  "call_arg_labels (called f s) = call_arg_labels s"
  by (auto simp: called_def Let_def)

lemma visit_FuncCall_post:
  assumes "consistent s" and "visit_FuncCall f args s = Inr (frag, s')"
  shows "post s frag s'"
proof -
  let ?l = "lbl (availabe_label_index s)"
  from visit_FuncCall_Inr [OF assms(2)] obtain s4 where
    frag: "frag = (?l, [?l])" and q: "quiet ?l (called f s) s4" and
    s': "s' = s4 \<or> (\<exists>a. s' = call_arg_tags f a ?l s4)"
    by blast
  from q have obs4: "availabe_label_index s4 = Suc (availabe_label_index s)"
    "label_refs s4 \<subseteq> insert ?l (label_refs s)"
    "edb s4 ''label'' = edb s ''label'' @ [Str ?l]"
    "edb s4 ''call'' = edb s ''call'' @ [Tuple [f, ?l]]"
    "set (edb s4 ''function'') = insert (Str f) (set (edb s ''function''))"
    "edb s4 ''assignment'' = edb s ''assignment''"
    "edb s4 ''return'' = edb s ''return''"
    "edb s4 ''condition'' = edb s ''condition''"
    "strs s4 ''label'' = insert ?l (strs s ''label'')"
    "strs s4 ''return'' = strs s ''return''"
    "strs s4 ''condition'' = strs s ''condition''"
    "sources s4 = sources s" "rhs_labels s4 = rhs_labels s" "call_arg_labels s4 = call_arg_labels s"
    by (auto simp: quiet_def called_obs)
  from s' obs4(2) consistent_fresh [OF assms(1)] consistent_fresh_refs [OF assms(1)] assms(1) show ?thesis
    unfolding post_def consistent_def fresh_def frag
    by (elim disjE exE) (auto simp: obs4(1,3-))
qed

lemma condition_block_Inr:
  assumes "condition_block c s = Inr (l, s1)"
  shows "l = lbl (availabe_label_index s) \<and>
    (\<exists>vs ds xs. s1 = add_used vs ds l (add_variables xs
       (edb_append ''condition'' (Str l) (edb_append ''label'' (Str l)
          (s\<lparr> availabe_label_index := Suc (availabe_label_index s) \<rparr>)))))"
proof -
  let ?l = "lbl (availabe_label_index s)"
  let ?s2 = "edb_append ''condition'' (Str ?l) (edb_append ''label'' (Str ?l)
          (s\<lparr> availabe_label_index := Suc (availabe_label_index s) \<rparr>))"
  from assms obtain vs ds s3 where
    p: "process_expr (Some c) ?s2 = Inr ((vs, ds), s3)"
    by (auto simp: condition_block_def add_elementary_block_def new_label_def Let_def
        split: sum.splits)
  from assms p have "l = ?l" and "s1 = add_used vs ds ?l s3"
    by (auto simp: condition_block_def add_elementary_block_def new_label_def Let_def)
  with process_expr_eq [OF p] show ?thesis
    by auto
qed

lemma condition_block_post:
  assumes "consistent s" and "condition_block c s = Inr (l, s1)"
  shows "post s (l, [l]) s1" and "l \<in> strs s1 ''condition''"
proof -
  from condition_block_Inr [OF assms(2)] obtain vs ds xs where
    l: "l = lbl (availabe_label_index s)" and
    s1: "s1 = add_used vs ds l (add_variables xs
       (edb_append ''condition'' (Str l) (edb_append ''label'' (Str l)
          (s\<lparr> availabe_label_index := Suc (availabe_label_index s) \<rparr>))))"
    by blast
  from consistent_fresh [OF assms(1)] consistent_fresh_refs [OF assms(1)] assms(1)
  show "post s (l, [l]) s1"
    unfolding post_def consistent_def fresh_def s1 unfolding l
    by auto
  show "l \<in> strs s1 ''condition''"
    unfolding s1 by simp
qed

section \<open>Composing fragments\<close>

lemma consistent_add_arcs:
  assumes "consistent s" and "set P \<subseteq> strs s ''label''" and "b \<in> strs s ''label''"
    and "set P \<inter> strs s ''return'' = {}"
  shows "consistent (add_arcs P b s)"
  using assms unfolding consistent_def by auto

lemma postD:
  assumes "post s (i, F) s'"
  shows "consistent s'"
    and "strs s ''label'' \<subseteq> strs s' ''label''"
    and "i \<in> strs s' ''label''" and "i \<notin> strs s ''label''"
    and "set F \<subseteq> strs s' ''label''" and "set F \<inter> strs s ''label'' = {}"
    and "sources s' \<subseteq> sources s \<union> (strs s' ''label'' - strs s ''label'')"
    and "strs s' ''return'' \<subseteq> strs s ''return'' \<union> (strs s' ''label'' - strs s ''label'')"
    and "strs s ''condition'' \<subseteq> strs s' ''condition''"
    and "set F \<inter> strs s' ''return'' = {}"
    and "\<And>l. l \<in> set F \<Longrightarrow> l \<in> sources s' \<Longrightarrow> l \<in> strs s' ''condition''"
  using assms unfolding post_def fresh_def fst_conv snd_conv by blast+

lemma postI:
  assumes "consistent s'"
    and "strs s ''label'' \<subseteq> strs s' ''label''"
    and "i \<in> strs s' ''label''" and "i \<notin> strs s ''label''"
    and "set F \<subseteq> strs s' ''label''" and "set F \<inter> strs s ''label'' = {}"
    and "sources s' \<subseteq> sources s \<union> (strs s' ''label'' - strs s ''label'')"
    and "strs s' ''return'' \<subseteq> strs s ''return'' \<union> (strs s' ''label'' - strs s ''label'')"
    and "strs s ''condition'' \<subseteq> strs s' ''condition''"
    and "set F \<inter> strs s' ''return'' = {}"
    and "\<And>l. l \<in> set F \<Longrightarrow> l \<in> sources s' \<Longrightarrow> l \<in> strs s' ''condition''"
  shows "post s (i, F) s'"
  using assms unfolding post_def fresh_def fst_conv snd_conv by blast

lemma post_seq:
  assumes p1: "post s (i1, F1) s1" and p2: "post s1 (i2, F2) s2"
  shows "post s (i1, F1 @ F2) s2"
proof (rule postI)
  note a = postD [OF p1] and b = postD [OF p2]
  show "consistent s2" by (rule b(1))
  show "strs s ''label'' \<subseteq> strs s2 ''label''" using a(2) b(2) by blast
  show "i1 \<in> strs s2 ''label''" using a(3) b(2) by blast
  show "i1 \<notin> strs s ''label''" by (rule a(4))
  show "set (F1 @ F2) \<subseteq> strs s2 ''label''" using a(5) b(2) b(5) by auto
  show "set (F1 @ F2) \<inter> strs s ''label'' = {}" using a(6) b(6) a(2) by auto
  show "sources s2 \<subseteq> sources s \<union> (strs s2 ''label'' - strs s ''label'')"
    using a(7) b(7) a(2) b(2) by blast
  show "strs s2 ''return'' \<subseteq> strs s ''return'' \<union> (strs s2 ''label'' - strs s ''label'')"
    using a(8) b(8) a(2) b(2) by blast
  show "strs s ''condition'' \<subseteq> strs s2 ''condition''" using a(9) b(9) by blast
  show "set (F1 @ F2) \<inter> strs s2 ''return'' = {}"
    using a(5) a(10) b(8) b(10) by auto
  show "l \<in> strs s2 ''condition''" if "l \<in> set (F1 @ F2)" and "l \<in> sources s2" for l
  proof (cases "l \<in> set F2")
    case True
    then show ?thesis using that(2) by (rule b(11))
  next
    case False
    with that(1) have l: "l \<in> set F1" by simp
    with a(5) have "l \<in> strs s1 ''label''" by blast
    with that(2) b(7) have "l \<in> sources s1" by blast
    with l have "l \<in> strs s1 ''condition''" by (simp add: a(11))
    with b(9) show ?thesis by blast
  qed
qed

lemma post_weaken:
  assumes p: "post s (i, F) s'" and sub: "set F' \<subseteq> set F"
  shows "post s (i, F') s'"
proof (rule postI)
  note a = postD [OF p]
  show "consistent s'" by (rule a(1))
  show "strs s ''label'' \<subseteq> strs s' ''label''" by (rule a(2))
  show "i \<in> strs s' ''label''" by (rule a(3))
  show "i \<notin> strs s ''label''" by (rule a(4))
  show "set F' \<subseteq> strs s' ''label''" using a(5) sub by blast
  show "set F' \<inter> strs s ''label'' = {}" using a(6) sub by blast
  show "sources s' \<subseteq> sources s \<union> (strs s' ''label'' - strs s ''label'')" by (rule a(7))
  show "strs s' ''return'' \<subseteq> strs s ''return'' \<union> (strs s' ''label'' - strs s ''label'')"
    by (rule a(8))
  show "strs s ''condition'' \<subseteq> strs s' ''condition''" by (rule a(9))
  show "set F' \<inter> strs s' ''return'' = {}" using a(10) sub by blast
  show "l \<in> strs s' ''condition''" if "l \<in> set F'" and "l \<in> sources s'" for l
    using that sub a(11) [of l] by blast
qed

lemma post_add_arcs:
  assumes p: "post s (i, F) s'"
    and P: "set P \<subseteq> strs s' ''label''" "set P \<inter> strs s ''label'' = {}"
      "set P \<inter> strs s' ''return'' = {}"
    and b: "b \<in> strs s' ''label''"
    and F: "\<And>l. l \<in> set F \<Longrightarrow> l \<in> set P \<Longrightarrow> l \<in> strs s' ''condition''"
  shows "post s (i, F) (add_arcs P b s')"
proof (rule postI)
  note a = postD [OF p]
  show "consistent (add_arcs P b s')" using a(1) P(1) b P(3) by (rule consistent_add_arcs)
  show "strs s ''label'' \<subseteq> strs (add_arcs P b s') ''label''" using a(2) by simp
  show "i \<in> strs (add_arcs P b s') ''label''" using a(3) by simp
  show "i \<notin> strs s ''label''" by (rule a(4))
  show "set F \<subseteq> strs (add_arcs P b s') ''label''" using a(5) by simp
  show "set F \<inter> strs s ''label'' = {}" by (rule a(6))
  show "sources (add_arcs P b s')
      \<subseteq> sources s \<union> (strs (add_arcs P b s') ''label'' - strs s ''label'')"
    using a(7) P(1,2) by auto
  show "strs (add_arcs P b s') ''return''
      \<subseteq> strs s ''return'' \<union> (strs (add_arcs P b s') ''label'' - strs s ''label'')"
    using a(8) by simp
  show "strs s ''condition'' \<subseteq> strs (add_arcs P b s') ''condition''" using a(9) by simp
  show "set F \<inter> strs (add_arcs P b s') ''return'' = {}" using a(10) by simp
  show "l \<in> strs (add_arcs P b s') ''condition''"
    if "l \<in> set F" and "l \<in> sources (add_arcs P b s')" for l
    using that a(11) [of l] F [of l] by auto
qed

lemma add_arcs_single: "add_arcs [a] b s = add_arc a b s"
  by (simp add: add_arcs_def)

lemma post_branch:
  assumes c: "post s (l, F) s1" and lF: "l \<in> set F" and lc: "l \<in> strs s1 ''condition''"
    and b: "post s1 (bi, bF) s2"
  shows "post s (l, F @ bF) (add_arc l bi s2)"
    and "l \<in> strs (add_arc l bi s2) ''condition''"
proof -
  have q: "post s (l, F @ bF) s2" using c b by (rule post_seq)
  note qd = postD [OF q] and bd = postD [OF b]
  from lc bd(9) have lc2: "l \<in> strs s2 ''condition''" by blast
  have "post s (l, F @ bF) (add_arcs [l] bi s2)"
  proof (rule post_add_arcs [OF q])
    show "set [l] \<subseteq> strs s2 ''label''" using qd(5) lF by auto
    show "set [l] \<inter> strs s ''label'' = {}" using qd(6) lF by auto
    show "set [l] \<inter> strs s2 ''return'' = {}" using qd(10) lF by auto
    show "bi \<in> strs s2 ''label''" by (rule bd(3))
    show "f \<in> strs s2 ''condition''" if "f \<in> set (F @ bF)" and "f \<in> set [l]" for f
      using that lc2 by simp
  qed
  then show "post s (l, F @ bF) (add_arc l bi s2)" by (simp add: add_arcs_single)
  from lc2 show "l \<in> strs (add_arc l bi s2) ''condition''" by simp
qed

section \<open>Every visit keeps the visitor consistent\<close>

lemma visit_post:
  "consistent s \<Longrightarrow> visit n s = Inr (frag, s') \<Longrightarrow> post s frag s'"
  "post s0 (hi, P) s \<Longrightarrow> visit_stmts ns P s = Inr (F, s') \<Longrightarrow> post s0 (hi, F) s'"
proof (induction n s and ns P s arbitrary: frag s' and s0 hi F s' rule: visit_visit_stmts.induct)
  case (3 name body s)
  then show ?case by simp
next
  case (5 name body s)
  then show ?case by (auto split: if_splits)
next
  case (8 head tail s)
  from "8.prems"(2) obtain hi hF s1 F where
    h: "visit head s = Inr ((hi, hF), s1)" and
    t: "visit_stmts tail hF s1 = Inr (F, s')" and frag: "frag = (hi, F)"
    by (auto split: sum.splits)
  from "8.IH"(1) [OF "8.prems"(1) h] have "post s (hi, hF) s1" .
  from "8.IH"(2) [OF h refl refl this t] show ?case by (simp add: frag)
next
  case (11 cond iftrue s)
  from "11.prems"(2) obtain l s1 ti tF s2 where
    c: "condition_block cond s = Inr (l, s1)" and
    t: "visit iftrue s1 = Inr ((ti, tF), s2)" and
    frag: "frag = (l, tF @ [l])" and s': "s' = add_arc l ti s2"
    by (auto split: sum.splits)
  note cp = condition_block_post [OF "11.prems"(1) c]
  from "11.IH" [OF c refl postD(1) [OF cp(1)] t] have "post s1 (ti, tF) s2" .
  from post_branch(1) [OF cp(1) _ cp(2) this] have "post s (l, [l] @ tF) (add_arc l ti s2)"
    by simp
  then show ?case unfolding frag s' by (rule post_weaken) auto
next
  case (12 cond iffalse s)
  from "12.prems"(2) obtain l s1 fi fF s2 where
    c: "condition_block cond s = Inr (l, s1)" and
    f: "visit iffalse s1 = Inr ((fi, fF), s2)" and
    frag: "frag = (l, [l] @ fF)" and s': "s' = add_arc l fi s2"
    by (auto split: sum.splits)
  note cp = condition_block_post [OF "12.prems"(1) c]
  from "12.IH" [OF c refl postD(1) [OF cp(1)] f] have "post s1 (fi, fF) s2" .
  from post_branch(1) [OF cp(1) _ cp(2) this] show ?case unfolding frag s'
    by simp
next
  case (13 cond iftrue iffalse s)
  from "13.prems"(2) obtain l s1 ti tF s2 fi fF s3 where
    c: "condition_block cond s = Inr (l, s1)" and
    t: "visit iftrue s1 = Inr ((ti, tF), s2)" and
    f: "visit iffalse (add_arc l ti s2) = Inr ((fi, fF), s3)" and
    frag: "frag = (l, tF @ fF)" and s': "s' = add_arc l fi s3"
    by (auto split: sum.splits)
  note cp = condition_block_post [OF "13.prems"(1) c]
  from "13.IH"(1) [OF c refl postD(1) [OF cp(1)] t] have "post s1 (ti, tF) s2" .
  from post_branch [OF cp(1) _ cp(2) this]
  have q: "post s (l, [l] @ tF) (add_arc l ti s2)"
    and lc: "l \<in> strs (add_arc l ti s2) ''condition''"
    by simp_all
  from "13.IH"(2) [OF c refl t refl refl postD(1) [OF q] f]
  have "post (add_arc l ti s2) (fi, fF) s3" .
  from post_branch(1) [OF q _ lc this]
  have "post s (l, ([l] @ tF) @ fF) (add_arc l fi s3)" by simp
  then show ?case unfolding frag s' by (rule post_weaken) auto
next
  case (15 cond s)
  from "15.prems"(2) obtain l where
    c: "condition_block cond s = Inr (l, s')" and frag: "frag = (l, [l])"
    by (auto split: sum.splits)
  from condition_block_post(1) [OF "15.prems"(1) c] show ?case by (simp add: frag)
next
  case (16 cond stmt s)
  from "16.prems"(2) obtain l s1 bi bF s2 where
    c: "condition_block cond s = Inr (l, s1)" and
    b: "visit stmt s1 = Inr ((bi, bF), s2)" and
    frag: "frag = (l, [l])" and s': "s' = add_arcs bF l (add_arc l bi s2)"
    by (auto split: sum.splits)
  note cp = condition_block_post [OF "16.prems"(1) c]
  from "16.IH" [OF c refl postD(1) [OF cp(1)] b] have "post s1 (bi, bF) s2" .
  from post_branch [OF cp(1) _ cp(2) this]
  have q: "post s (l, [l] @ bF) (add_arc l bi s2)"
    and lc: "l \<in> strs (add_arc l bi s2) ''condition''"
    by simp_all
  note qd = postD [OF q]
  have w: "post s (l, [l]) (add_arc l bi s2)" using q by (rule post_weaken) simp
  show ?case unfolding frag s'
  proof (rule post_add_arcs [OF w])
    show "set bF \<subseteq> strs (add_arc l bi s2) ''label''" using qd(5) by auto
    show "set bF \<inter> strs s ''label'' = {}" using qd(6) by auto
    show "set bF \<inter> strs (add_arc l bi s2) ''return'' = {}" using qd(10) by auto
    show "l \<in> strs (add_arc l bi s2) ''label''" by (rule qd(3))
    show "f \<in> strs (add_arc l bi s2) ''condition''" if "f \<in> set [l]" for f
      using that lc by simp
  qed
next
  case (17 name args s)
  then show ?case by (simp add: visit_FuncCall_post)
next
  case (18 op lvalue rvalue s)
  then show ?case by (simp add: visit_Assignment_post)
next
  case (19 expr s)
  then show ?case by (simp add: visit_Return_post)
next
  case (25 prev_finals s)
  then show ?case by simp
next
  case (26 stmt tail P s)
  from "26.prems"(2) obtain ci cF s1 where
    v: "visit stmt s = Inr ((ci, cF), s1)" and
    t: "visit_stmts tail cF (add_arcs P ci s1) = Inr (F, s')"
    by (auto split: sum.splits)
  note pd = postD [OF "26.prems"(1)]
  from "26.IH"(1) [OF pd(1) v] have c: "post s (ci, cF) s1" .
  note cd = postD [OF c]
  have q: "post s0 (hi, P @ cF) s1" using "26.prems"(1) c by (rule post_seq)
  note qd = postD [OF q]
  have w: "post s0 (hi, cF) s1" using q by (rule post_weaken) simp
  have "post s0 (hi, cF) (add_arcs P ci s1)"
  proof (rule post_add_arcs [OF w])
    show "set P \<subseteq> strs s1 ''label''" using qd(5) by auto
    show "set P \<inter> strs s0 ''label'' = {}" using qd(6) by auto
    show "set P \<inter> strs s1 ''return'' = {}" using qd(10) by auto
    show "ci \<in> strs s1 ''label''" by (rule cd(3))
    show "f \<in> strs s1 ''condition''" if "f \<in> set cF" and "f \<in> set P" for f
      using that cd(6) pd(5) by blast
  qed
  from "26.IH"(2) [OF v refl refl this t] show ?case .
qed (simp_all split: sum.splits)

section \<open>The result of a build\<close>

lemma consistent_StatementVisitor: "consistent StatementVisitor"
  by (simp add: consistent_def StatementVisitor_def label_refs_def sources_def strs_def
      rhs_labels_def call_arg_labels_def)

lemma generate_cfg_Inr:
  assumes "generate_cfg ast = Inr e"
  obtains init finals v where
    "visit ast StatementVisitor = Inr ((init, finals), v)"
    "post StatementVisitor (init, finals) v"
    "availabe_label_index e = availabe_label_index v"
    "edb e = (edb v)(''init'' := [Str init],
                      ''final'' := remdups (map Str finals @ edb v ''return''))"
proof -
  from assms obtain init finals v where
    v: "visit ast StatementVisitor = Inr ((init, finals), v)" and
    e: "e = v\<lparr> edb := (edb v)(''init'' := [Str init],
                 ''final'' := remdups (map Str finals @ edb v ''return'')) \<rparr>"
    by (auto simp: generate_cfg_def split: sum.splits)
  from visit_post(1) [OF consistent_StatementVisitor v]
  have "post StatementVisitor (init, finals) v" .
  with v e show ?thesis by (intro that [of init finals v]) simp_all
qed

lemma label_refs_generate:
  assumes "edb e = (edb v)(''init'' := [Str init],
                      ''final'' := remdups (map Str finals @ edb v ''return''))"
  shows "label_refs e \<subseteq> label_refs v \<union> insert init (set finals)"
proof
  fix l assume "l \<in> label_refs e"
  then obtain name t where t: "t \<in> set (edb e name)" and l: "l \<in> fact_labels name t"
    unfolding label_refs_def by blast
  show "l \<in> label_refs v \<union> insert init (set finals)"
  proof (cases "name = ''init''")
    case True
    with t l assms show ?thesis by (simp add: fact_labels_def fact_label_def labelled_relations_def)
  next
    case False
    note ni = this
    show ?thesis
    proof (cases "name = ''final''")
      case True
      with t assms have "t \<in> Str ` set finals \<or> t \<in> set (edb v ''return'')" by auto
      then show ?thesis
      proof
        assume "t \<in> Str ` set finals"
        with l True show ?thesis by (auto simp: fact_labels_def fact_label_def labelled_relations_def)
      next
        assume r: "t \<in> set (edb v ''return'')"
        from l True have "l = fact_label t" by (simp add: fact_labels_def labelled_relations_def)
        with label_refs_I [OF r] show ?thesis by simp
      qed
    next
      case False
      with ni t assms have "t \<in> set (edb v name)" by simp
      with l show ?thesis unfolding label_refs_def by blast
    qed
  qed
qed

section \<open>Evaluating a build\<close>

lemma add_used_edb:
  "edb (add_used vs ds l s) m =
     (if m = ''used_deref'' then edb s m @ map (\<lambda>v. Tuple [v, l]) (remdups ds)
      else if m = ''used'' then edb s m @ map (\<lambda>v. Tuple [v, l]) (remdups (vs @ ds))
      else edb s m)"
  by (simp add: add_used_def fold_append_obs)

lemmas eval_defs = main_prog_def generate_cfg_def StatementVisitor_def visit_Return_def
  visit_Assignment_def visit_FuncCall_def condition_block_def add_elementary_block_def
  new_label_def process_expr_def add_used_edb add_arc_def add_arcs_def
  rhs_tags_def call_arg_tags_def lbl_def str.simps digit_def Let_def relation_of_def

lemma example_branch_accepted: "\<exists>e. generate_cfg example_branch = Inr e"
  by (simp add: example_branch_def eval_defs)

section \<open>Statement-level facts\<close>

text \<open>The read scan knows one error.\<close>

lemma expr_visit_error: "expr_visit n r = Inl e \<Longrightarrow> e = UnsupportedLanguageConstruct"
  by (induction n r arbitrary: e rule: expr_visit.induct) (auto split: if_splits sum.splits)

text \<open>
  A sole top-level element that is no function definition: the last \<^verbatim>\<open>raise\<close> of
  \<^verbatim>\<open>visit_FileAST\<close> reads the unbound name \<^verbatim>\<open>node\<close>.
\<close>

lemma FileAST_not_FuncDef:
  "generate_cfg (FileAST [Other kind]) = Inl NameError"
  by (simp add: generate_cfg_def)

lemma visit_Assignment_eq:
  "visit_Assignment lvalue rvalue s =
     (case ExpressionVisitor_visit (Some rvalue) of
        Inl e \<Rightarrow> Inl e
      | Inr r \<Rightarrow>
          (case ExpressionVisitor_visit (Some lvalue) of
             Inl e \<Rightarrow> Inl e
           | Inr (lvs, lds) \<Rightarrow>
               if length lvs = 1 \<and> length lds = 0
               then Inr ((lbl (availabe_label_index s), [lbl (availabe_label_index s)]),
                         assigned ''defined'' (hd lvs) (lvs @ lds) rvalue (fst r) (snd r)
                           (fst r @ snd r) s)
               else if length lvs = 0 \<and> length lds = 1
               then Inr ((lbl (availabe_label_index s), [lbl (availabe_label_index s)]),
                         assigned ''defined_deref'' (hd lds) (lvs @ lds) rvalue (fst r) (snd r)
                           (fst r @ snd r) s)
               else Inl UnsupportedLanguageConstruct))"
  by (simp add: visit_Assignment_def add_elementary_block_def new_label_def Let_def
      process_expr_def assigned_def split: sum.splits prod.splits)

lemma assigned_edb:
  "edb (assigned ''defined'' v ys rv rvs rds xs s) ''defined'' =
     edb s ''defined'' @ [Tuple [v, lbl (availabe_label_index s)]]"
  "edb (assigned ''defined'' v ys rv rvs rds xs s) ''defined_deref'' = edb s ''defined_deref''"
  "edb (assigned ''defined_deref'' v ys rv rvs rds xs s) ''defined_deref'' =
     edb s ''defined_deref'' @ [Tuple [v, lbl (availabe_label_index s)]]"
  "edb (assigned ''defined_deref'' v ys rv rvs rds xs s) ''defined'' = edb s ''defined''"
  by (simp_all add: assigned_def Let_def)

lemma visit_FuncCall_eq:
  "visit_FuncCall f args s =
     (case args of
        None \<Rightarrow> Inr ((lbl (availabe_label_index s), [lbl (availabe_label_index s)]), called f s)
      | Some as \<Rightarrow>
          (case process_args as (lbl (availabe_label_index s)) (called f s) of
             Inl e \<Rightarrow> Inl e
           | Inr s4 \<Rightarrow>
               Inr ((lbl (availabe_label_index s), [lbl (availabe_label_index s)]),
                    if length as = 1
                    then call_arg_tags f (hd as) (lbl (availabe_label_index s)) s4 else s4)))"
  by (simp add: visit_FuncCall_def add_elementary_block_def new_label_def Let_def called_def
      split: option.splits)

lemma call_arg_tags_edb:
  "edb (call_arg_tags f a l s) ''call_arg_var'' =
     edb s ''call_arg_var'' @ (if truthy (is_var a) then [Tuple [f, the (is_var a), l]] else [])"
  "edb (call_arg_tags f a l s) ''call_arg_const'' =
     edb s ''call_arg_const'' @ (if truthy (is_const a) then [Tuple [f, the (is_const a), l]] else [])"
  "edb (call_arg_tags f a l s) ''call_arg_deref'' =
     edb s ''call_arg_deref'' @ (if truthy (is_deref a) then [Tuple [f, the (is_deref a), l]] else [])"
  by (simp_all add: call_arg_tags_def Let_def)

lemma called_call_arg:
  "edb (called f s) ''call_arg_var'' = edb s ''call_arg_var''"
  "edb (called f s) ''call_arg_const'' = edb s ''call_arg_const''"
  "edb (called f s) ''call_arg_deref'' = edb s ''call_arg_deref''"
  by (simp_all add: called_def Let_def)

lemma quiet_edb:
  "quiet l s s' \<Longrightarrow> m \<noteq> ''variable'' \<Longrightarrow> m \<noteq> ''used'' \<Longrightarrow> m \<noteq> ''used_deref''
     \<Longrightarrow> edb s' m = edb s m"
  by (simp add: quiet_def)

lemma shape_tests_at_most_one: "length (filter truthy [is_var a, is_const a, is_deref a]) \<le> 1"
proof -
  consider "truthy (is_var a)" | "truthy (is_const a)" | "truthy (is_deref a)"
    | "\<not> truthy (is_var a)" "\<not> truthy (is_const a)" "\<not> truthy (is_deref a)"
    by blast
  then show ?thesis
  proof cases
    case 1
    with shapes_exclusive(3) [OF 1] show ?thesis by simp
  next
    case 2
    with shapes_exclusive(4) [OF 2] show ?thesis by simp
  next
    case 3
    with shapes_exclusive(1) [OF 3] show ?thesis by simp
  next
    case 4
    then show ?thesis by simp
  qed
qed

lemma visit_FuncCall_single:
  assumes "visit_FuncCall f (Some [a]) s = Inr ((l, F), s')"
  shows "\<exists>s4. process_args [a] (lbl (availabe_label_index s)) (called f s) = Inr s4 \<and>
    l = lbl (availabe_label_index s) \<and> s' = call_arg_tags f a l s4"
  using assms unfolding visit_FuncCall_eq by (auto split: sum.splits)

lemma rhs_tags_edb:
  "edb (rhs_tags rv l s) ''rhs_address'' =
     edb s ''rhs_address'' @ (if truthy (is_address rv) then [Tuple [the (is_address rv), l]] else [])"
  by (simp add: rhs_tags_def Let_def)

lemma assigned_rhs_address:
  "edb (assigned n v ys rv rvs rds xs s) ''rhs_address'' =
     edb s ''rhs_address'' @
       (if truthy (is_address rv)
        then [Tuple [the (is_address rv), lbl (availabe_label_index s)]] else [])"
  if "n = ''defined'' \<or> n = ''defined_deref''"
  using that by (auto simp: assigned_def Let_def rhs_tags_edb)

section \<open>The claims\<close>

subsection \<open>C1\<close>

text \<open>
  Claim C1, as the code has it. For every accepted program every label in the return
  relation is a member of the final relation and has no outgoing edge in flow, and
  every label in final that is not a condition label has no outgoing edge in flow.
  (A condition label that is left open at the end of the program, such as the condition
  of a loop, is in final and keeps its edges.)
\<close>

theorem C1_sinks:
  assumes "generate_cfg ast = Inr e"
  shows "(\<forall>l. Str l \<in> set (edb e ''return'') \<longrightarrow>
            Str l \<in> set (edb e ''final'') \<and> (\<forall>b. Tuple [l, b] \<notin> set (edb e ''flow''))) \<and>
         (\<forall>l. Str l \<in> set (edb e ''final'') \<longrightarrow> Str l \<notin> set (edb e ''condition'') \<longrightarrow>
            (\<forall>b. Tuple [l, b] \<notin> set (edb e ''flow'')))"
proof -
  from assms obtain init finals v where
    p: "post StatementVisitor (init, finals) v" and
    e: "edb e = (edb v)(''init'' := [Str init],
                      ''final'' := remdups (map Str finals @ edb v ''return''))"
    by (rule generate_cfg_Inr)
  note pd = postD [OF p]
  from pd(1) have sr: "sources v \<inter> strs v ''return'' = {}"
    by (simp add: consistent_def)
  from e have same: "sources e = sources v" "edb e ''return'' = edb v ''return''"
    "edb e ''condition'' = edb v ''condition''"
    and final: "set (edb e ''final'') = Str ` set finals \<union> set (edb v ''return'')"
    by (simp_all add: sources_def)
  have "Str l \<in> set (edb e ''final'') \<and> l \<notin> sources e"
    if "Str l \<in> set (edb e ''return'')" for l
    using that sr unfolding same final strs_def by blast
  moreover have "l \<notin> sources e"
    if "Str l \<in> set (edb e ''final'')" and "Str l \<notin> set (edb e ''condition'')" for l
  proof (cases "l \<in> set finals")
    case True
    with pd(11) [of l] that(2) show ?thesis
      unfolding same strs_def by blast
  next
    case False
    with that(1) have "Str l \<in> set (edb v ''return'')"
      unfolding final by blast
    with sr show ?thesis unfolding same strs_def by blast
  qed
  ultimately have
    "(\<forall>l. Str l \<in> set (edb e ''return'') \<longrightarrow> Str l \<in> set (edb e ''final'') \<and> l \<notin> sources e) \<and>
     (\<forall>l. Str l \<in> set (edb e ''final'') \<longrightarrow> Str l \<notin> set (edb e ''condition'') \<longrightarrow>
        l \<notin> sources e)"
    by blast
  then show ?thesis by (simp add: sources_def)
qed

theorem C1_sinks_witness:
  "\<exists>e. generate_cfg example_branch = Inr e \<and>
     (\<forall>l. Str l \<in> set (edb e ''return'') \<longrightarrow>
            Str l \<in> set (edb e ''final'') \<and> (\<forall>b. Tuple [l, b] \<notin> set (edb e ''flow''))) \<and>
     (\<forall>l. Str l \<in> set (edb e ''final'') \<longrightarrow> Str l \<notin> set (edb e ''condition'') \<longrightarrow>
            (\<forall>b. Tuple [l, b] \<notin> set (edb e ''flow'')))"
proof -
  from example_branch_accepted obtain e where g: "generate_cfg example_branch = Inr e" ..
  from C1_sinks [OF g] g show ?thesis by blast
qed

text \<open>
  The claim as stated, that no label in final has an outgoing edge, fails on a program
  that ends with a loop: the loop's condition \<^verbatim>\<open>l1\<close> is the open exit, so it is in
  final, and it has the edge to the body.
\<close>

theorem C1_loop_counterexample:
  "relation_of (generate_cfg example_loop) ''final'' = Inr [Str ''l1''] \<and>
   relation_of (generate_cfg example_loop) ''flow'' =
     Inr [Tuple [''l1'', ''l2''], Tuple [''l2'', ''l1'']]"
  by (simp add: example_loop_def eval_defs)

subsection \<open>C2\<close>

text \<open>
  Claim C2, as the code has it. A file with no top-level element, and a file with more
  than one, fail with \<open>UnsupportedLanguageConstruct\<close>; a file whose only element is a
  function definition with another name than \<^verbatim>\<open>main\<close> fails the assertion of
  \<^verbatim>\<open>visit_FuncDef\<close> with \<open>AssertionError\<close>.
\<close>

theorem C2_program_root:
  "generate_cfg (FileAST []) = Inl UnsupportedLanguageConstruct \<and>
   (1 < length ext \<longrightarrow> generate_cfg (FileAST ext) = Inl UnsupportedLanguageConstruct) \<and>
   (name \<noteq> ''main'' \<longrightarrow> generate_cfg (FileAST [FuncDef name body]) = Inl AssertionError)"
proof -
  have "generate_cfg (FileAST ext) = Inl UnsupportedLanguageConstruct" if "1 < length ext"
  proof -
    from that obtain x y rest where "ext = x # y # rest"
      by (cases ext; cases "tl ext") auto
    then show ?thesis by (simp add: generate_cfg_def)
  qed
  then show ?thesis by (simp add: generate_cfg_def)
qed

theorem C2_program_root_witness:
  "generate_cfg (FileAST []) = Inl UnsupportedLanguageConstruct \<and>
   generate_cfg (FileAST [Other ''Decl'', FuncDef ''main'' (Compound None)]) =
     Inl UnsupportedLanguageConstruct \<and>
   generate_cfg (FileAST [FuncDef ''start'' (Compound (Some [Return (Some (Constant ''0''))]))]) =
     Inl AssertionError"
  using C2_program_root [of "[Other ''Decl'', FuncDef ''main'' (Compound None)]" "''start''"
      "Compound (Some [Return (Some (Constant ''0''))])"]
  by simp

text \<open>
  The claim as stated fails on a function of another name: the error is not
  \<open>UnsupportedLanguageConstruct\<close>.
\<close>

theorem C2_entry_name_counterexample:
  "generate_cfg (FileAST [FuncDef ''start'' (Compound (Some [Return (Some (Constant ''0''))]))]) =
     Inl AssertionError \<and>
   generate_cfg (FileAST [FuncDef ''start'' (Compound (Some [Return (Some (Constant ''0''))]))]) \<noteq>
     Inl UnsupportedLanguageConstruct"
  by (simp add: generate_cfg_def)

subsection \<open>C3\<close>




subsection \<open>C4\<close>

text \<open>
  Claim C4, as the code has it. For every assignment whose right-hand side the read scan
  accepts: if the scan of the left-hand side gives exactly one direct-read variable and
  no dereferenced one, the builder appends (var, label) to defined and leaves
  defined_deref as it is; if it gives exactly one dereferenced variable and no direct
  one, the builder appends (var, label) to defined_deref and leaves defined as it is.
  For every other left-hand side, and whenever the right-hand side is rejected, the
  builder fails with \<open>UnsupportedLanguageConstruct\<close>.
\<close>

theorem C4_assignment_lhs:
  "(\<forall>r. ExpressionVisitor_visit (Some rvalue) = Inr r \<longrightarrow>
      (\<forall>v. ExpressionVisitor_visit (Some lvalue) = Inr ([v], []) \<longrightarrow>
         (\<exists>s'. visit_Assignment lvalue rvalue s =
                  Inr ((lbl (availabe_label_index s), [lbl (availabe_label_index s)]), s') \<and>
               edb s' ''defined'' = edb s ''defined'' @ [Tuple [v, lbl (availabe_label_index s)]] \<and>
               edb s' ''defined_deref'' = edb s ''defined_deref'')) \<and>
      (\<forall>v. ExpressionVisitor_visit (Some lvalue) = Inr ([], [v]) \<longrightarrow>
         (\<exists>s'. visit_Assignment lvalue rvalue s =
                  Inr ((lbl (availabe_label_index s), [lbl (availabe_label_index s)]), s') \<and>
               edb s' ''defined_deref'' =
                 edb s ''defined_deref'' @ [Tuple [v, lbl (availabe_label_index s)]] \<and>
               edb s' ''defined'' = edb s ''defined''))) \<and>
   ((\<forall>v. ExpressionVisitor_visit (Some lvalue) \<noteq> Inr ([v], [])) \<and>
    (\<forall>v. ExpressionVisitor_visit (Some lvalue) \<noteq> Inr ([], [v])) \<longrightarrow>
      visit_Assignment lvalue rvalue s = Inl UnsupportedLanguageConstruct) \<and>
   ((\<forall>r. ExpressionVisitor_visit (Some rvalue) \<noteq> Inr r) \<longrightarrow>
      visit_Assignment lvalue rvalue s = Inl UnsupportedLanguageConstruct)"
proof (intro conjI allI impI)
  fix r v
  assume r: "ExpressionVisitor_visit (Some rvalue) = Inr r"
    and l: "ExpressionVisitor_visit (Some lvalue) = Inr ([v], [])"
  show "\<exists>s'. visit_Assignment lvalue rvalue s =
                  Inr ((lbl (availabe_label_index s), [lbl (availabe_label_index s)]), s') \<and>
               edb s' ''defined'' = edb s ''defined'' @ [Tuple [v, lbl (availabe_label_index s)]] \<and>
               edb s' ''defined_deref'' = edb s ''defined_deref''"
    unfolding visit_Assignment_eq r l by (simp add: assigned_edb)
next
  fix r v
  assume r: "ExpressionVisitor_visit (Some rvalue) = Inr r"
    and l: "ExpressionVisitor_visit (Some lvalue) = Inr ([], [v])"
  show "\<exists>s'. visit_Assignment lvalue rvalue s =
                  Inr ((lbl (availabe_label_index s), [lbl (availabe_label_index s)]), s') \<and>
               edb s' ''defined_deref'' =
                 edb s ''defined_deref'' @ [Tuple [v, lbl (availabe_label_index s)]] \<and>
               edb s' ''defined'' = edb s ''defined''"
    unfolding visit_Assignment_eq r l by (simp add: assigned_edb)
next
  assume a: "(\<forall>v. ExpressionVisitor_visit (Some lvalue) \<noteq> Inr ([v], [])) \<and>
    (\<forall>v. ExpressionVisitor_visit (Some lvalue) \<noteq> Inr ([], [v]))"
  have one: "xs = [hd xs]" if "length xs = 1" for xs :: "string list"
    using that by (cases xs) auto
  show "visit_Assignment lvalue rvalue s = Inl UnsupportedLanguageConstruct"
  proof (cases "ExpressionVisitor_visit (Some rvalue)")
    case (Inl e)
    then show ?thesis
      unfolding visit_Assignment_eq using expr_visit_error [of rvalue "([], [])" e] by simp
  next
    case (Inr r)
    show ?thesis
    proof (cases "ExpressionVisitor_visit (Some lvalue)")
      case (Inl e)
      then show ?thesis
        unfolding visit_Assignment_eq Inr using expr_visit_error [of lvalue "([], [])" e] by simp
    next
      case lv: (Inr q)
      obtain lvs lds where q: "q = (lvs, lds)" by (cases q)
      from a lv q have "\<not> (length lvs = 1 \<and> length lds = 0)" "\<not> (length lvs = 0 \<and> length lds = 1)"
        using one [of lvs] one [of lds] by auto
      then show ?thesis
        unfolding visit_Assignment_eq Inr lv q by simp
    qed
  qed
next
  assume a: "\<forall>r. ExpressionVisitor_visit (Some rvalue) \<noteq> Inr r"
  then obtain e where e: "ExpressionVisitor_visit (Some rvalue) = Inl e"
    by (cases "ExpressionVisitor_visit (Some rvalue)") auto
  then show "visit_Assignment lvalue rvalue s = Inl UnsupportedLanguageConstruct"
    unfolding visit_Assignment_eq using expr_visit_error [of rvalue "([], [])" e] by simp
qed

theorem C4_assignment_lhs_witness:
  "(\<exists>s'. visit_Assignment (ID ''x'') (Constant ''1'') StatementVisitor =
            Inr ((''l1'', [''l1'']), s') \<and>
         edb s' ''defined'' = [Tuple [''x'', ''l1'']] \<and> edb s' ''defined_deref'' = []) \<and>
   (\<exists>s'. visit_Assignment (UnaryOp ''*'' (ID ''p'')) (Constant ''1'') StatementVisitor =
            Inr ((''l1'', [''l1'']), s') \<and>
         edb s' ''defined_deref'' = [Tuple [''p'', ''l1'']] \<and> edb s' ''defined'' = []) \<and>
   visit_Assignment (BinaryOp ''+'' (ID ''x'') (ID ''y'')) (Constant ''1'') StatementVisitor =
     Inl UnsupportedLanguageConstruct"
  using C4_assignment_lhs [of "Constant ''1''" "ID ''x''" StatementVisitor]
    C4_assignment_lhs [of "Constant ''1''" "UnaryOp ''*'' (ID ''p'')" StatementVisitor]
    C4_assignment_lhs [of "Constant ''1''" "BinaryOp ''+'' (ID ''x'') (ID ''y'')" StatementVisitor]
  by (simp add: StatementVisitor_def lbl_def str.simps digit_def)

text \<open>
  The claim as stated has no condition on the right-hand side. The scan of the
  right-hand side runs first, so with a call on the right the left-hand side \<^verbatim>\<open>x\<close>
  reduces to one direct-read variable and yet the build fails and records nothing.
\<close>

theorem C4_rhs_counterexample:
  "ExpressionVisitor_visit (Some (ID ''x'')) = Inr ([''x''], []) \<and>
   visit_Assignment (ID ''x'') (FuncCall ''f'' (Some [ID ''y''])) StatementVisitor =
     Inl UnsupportedLanguageConstruct \<and>
   generate_cfg (main_prog [Assignment ''='' (ID ''x'') (FuncCall ''f'' (Some [ID ''y'']))]) =
     Inl UnsupportedLanguageConstruct"
  by (simp add: eval_defs)

subsection \<open>C5\<close>

text \<open>
  Claim C5, as the code has it. A call statement with exactly one argument records one
  tuple (function, value, label) in call_arg_var when the argument is a bare variable,
  one in call_arg_const when it is a constant, one in call_arg_deref when it is the
  dereference of a bare variable, and none otherwise; it never records more than one.
  A call with no argument or with more than one records no call_arg tuple.
\<close>

theorem C5_call_arguments:
  assumes "visit_FuncCall f args s = Inr ((l, F), s')"
  shows "(\<forall>a. args = Some [a] \<longrightarrow>
            edb s' ''call_arg_var'' = edb s ''call_arg_var'' @
              (if truthy (is_var a) then [Tuple [f, the (is_var a), l]] else []) \<and>
            edb s' ''call_arg_const'' = edb s ''call_arg_const'' @
              (if truthy (is_const a) then [Tuple [f, the (is_const a), l]] else []) \<and>
            edb s' ''call_arg_deref'' = edb s ''call_arg_deref'' @
              (if truthy (is_deref a) then [Tuple [f, the (is_deref a), l]] else []) \<and>
            length (filter truthy [is_var a, is_const a, is_deref a]) \<le> 1) \<and>
         ((\<forall>a. args \<noteq> Some [a]) \<longrightarrow>
            edb s' ''call_arg_var'' = edb s ''call_arg_var'' \<and>
            edb s' ''call_arg_const'' = edb s ''call_arg_const'' \<and>
            edb s' ''call_arg_deref'' = edb s ''call_arg_deref'')"
proof (intro conjI allI impI)
  fix a assume args: "args = Some [a]"
  from visit_FuncCall_single [OF assms [unfolded args]] obtain s4 where
    p: "process_args [a] (lbl (availabe_label_index s)) (called f s) = Inr s4" and
    l: "l = lbl (availabe_label_index s)" and
    s': "s' = call_arg_tags f a l s4"
    by blast
  note q = quiet_edb [OF process_args_quiet [OF p]]
  show "edb s' ''call_arg_var'' = edb s ''call_arg_var'' @
              (if truthy (is_var a) then [Tuple [f, the (is_var a), l]] else [])"
    unfolding s' call_arg_tags_edb by (simp add: q called_call_arg)
  show "edb s' ''call_arg_const'' = edb s ''call_arg_const'' @
              (if truthy (is_const a) then [Tuple [f, the (is_const a), l]] else [])"
    unfolding s' call_arg_tags_edb by (simp add: q called_call_arg)
  show "edb s' ''call_arg_deref'' = edb s ''call_arg_deref'' @
              (if truthy (is_deref a) then [Tuple [f, the (is_deref a), l]] else [])"
    unfolding s' call_arg_tags_edb by (simp add: q called_call_arg)
  show "length (filter truthy [is_var a, is_const a, is_deref a]) \<le> 1"
    by (rule shape_tests_at_most_one)
next
  assume n: "\<forall>a. args \<noteq> Some [a]"
  have q: "quiet l (called f s) s'"
  proof (cases args)
    case None
    with assms have "s' = called f s" unfolding visit_FuncCall_eq by simp
    then show ?thesis by (simp add: quiet_refl)
  next
    case (Some as)
    with n have len: "length as \<noteq> 1" by (cases as) auto
    from assms Some len have "process_args as l (called f s) = Inr s'"
      unfolding visit_FuncCall_eq by (auto split: sum.splits)
    then show ?thesis by (rule process_args_quiet)
  qed
  show "edb s' ''call_arg_var'' = edb s ''call_arg_var''"
    using quiet_edb [OF q, of "''call_arg_var''"] by (simp add: called_call_arg)
  show "edb s' ''call_arg_const'' = edb s ''call_arg_const''"
    using quiet_edb [OF q, of "''call_arg_const''"] by (simp add: called_call_arg)
  show "edb s' ''call_arg_deref'' = edb s ''call_arg_deref''"
    using quiet_edb [OF q, of "''call_arg_deref''"] by (simp add: called_call_arg)
qed

theorem C5_call_arguments_witness:
  "(\<exists>s'. visit_FuncCall ''f'' (Some [ID ''x'']) StatementVisitor = Inr ((''l1'', [''l1'']), s') \<and>
         edb s' ''call_arg_var'' = [Tuple [''f'', ''x'', ''l1'']] \<and>
         edb s' ''call_arg_const'' = [] \<and> edb s' ''call_arg_deref'' = []) \<and>
   (\<exists>s'. visit_FuncCall ''f'' (Some [ID ''x'', ID ''y'']) StatementVisitor =
            Inr ((''l1'', [''l1'']), s') \<and>
         edb s' ''call_arg_var'' = [] \<and> edb s' ''call_arg_const'' = [] \<and>
         edb s' ''call_arg_deref'' = [])"
proof -
  obtain s1 where v1:
    "visit_FuncCall ''f'' (Some [ID ''x'']) StatementVisitor = Inr ((''l1'', [''l1'']), s1)"
    by (simp add: eval_defs)
  obtain s2 where v2:
    "visit_FuncCall ''f'' (Some [ID ''x'', ID ''y'']) StatementVisitor = Inr ((''l1'', [''l1'']), s2)"
    by (simp add: eval_defs)
  from C5_call_arguments [OF v1] have
    "edb s1 ''call_arg_var'' = [Tuple [''f'', ''x'', ''l1'']] \<and>
     edb s1 ''call_arg_const'' = [] \<and> edb s1 ''call_arg_deref'' = []"
    by (simp add: StatementVisitor_def)
  moreover from C5_call_arguments [OF v2] have
    "edb s2 ''call_arg_var'' = [] \<and> edb s2 ''call_arg_const'' = [] \<and>
     edb s2 ''call_arg_deref'' = []"
    by (simp add: StatementVisitor_def)
  ultimately show ?thesis using v1 v2 by blast
qed

text \<open>
  The claim as stated, that a sole argument always gets a tuple, fails on a compound
  argument: the call is recorded and the three call_arg relations stay empty.
\<close>

theorem C5_compound_argument_counterexample:
  "relation_of (generate_cfg example_compound_argument) ''call'' = Inr [Tuple [''f'', ''l1'']] \<and>
   relation_of (generate_cfg example_compound_argument) ''call_arg_var'' = Inr [] \<and>
   relation_of (generate_cfg example_compound_argument) ''call_arg_const'' = Inr [] \<and>
   relation_of (generate_cfg example_compound_argument) ''call_arg_deref'' = Inr []"
  by (simp add: example_compound_argument_def eval_defs)

subsection \<open>C6\<close>

text \<open>
  Claim C6. The read scan takes \<^verbatim>\<open>&x\<close> for a direct read of \<^verbatim>\<open>x\<close>: it adds the name
  to the direct-read set and leaves the dereferenced set as it is, and more generally it
  scans the operand of an address-of as if the operator were not there. The scan of an
  expression never writes rhs_address; an assignment writes it exactly when its whole
  right-hand side is the address of a variable, as \<^verbatim>\<open>is_address\<close> tells; a return, a
  call and a condition never write it.
\<close>

theorem C6_address_of_scan:
  "expr_visit (UnaryOp ''&'' (ID x)) (variables, deref_variables) =
     Inr (List.insert x variables, deref_variables) \<and>
   expr_visit (UnaryOp ''&'' n) (variables, deref_variables) =
     expr_visit n (variables, deref_variables) \<and>
   (\<forall>r s'. process_expr e s = Inr (r, s') \<longrightarrow> edb s' ''rhs_address'' = edb s ''rhs_address'') \<and>
   (\<forall>frag s'. visit_Assignment lvalue rvalue s = Inr (frag, s') \<longrightarrow>
      edb s' ''rhs_address'' =
        edb s ''rhs_address'' @
          (if truthy (is_address rvalue) then [Tuple [the (is_address rvalue), fst frag]] else [])) \<and>
   (\<forall>frag s'. visit_Return e s = Inr (frag, s') \<longrightarrow>
      edb s' ''rhs_address'' = edb s ''rhs_address'') \<and>
   (\<forall>frag s'. visit_FuncCall f args s = Inr (frag, s') \<longrightarrow>
      edb s' ''rhs_address'' = edb s ''rhs_address'') \<and>
   (\<forall>l s'. condition_block cond s = Inr (l, s') \<longrightarrow>
      edb s' ''rhs_address'' = edb s ''rhs_address'')"
proof (intro conjI allI impI)
  show "expr_visit (UnaryOp ''&'' (ID x)) (variables, deref_variables) =
     Inr (List.insert x variables, deref_variables)"
    by simp
  show "expr_visit (UnaryOp ''&'' n) (variables, deref_variables) =
     expr_visit n (variables, deref_variables)"
    by (cases n) simp_all
next
  fix r s' assume "process_expr e s = Inr (r, s')"
  then have "s' = add_variables (fst r @ snd r) s" by (rule process_expr_eq)
  then show "edb s' ''rhs_address'' = edb s ''rhs_address''" by simp
next
  fix frag s' assume a: "visit_Assignment lvalue rvalue s = Inr (frag, s')"
  from visit_Assignment_Inr [OF a] obtain rvs rds xs ys v where
    frag: "frag = (lbl (availabe_label_index s), [lbl (availabe_label_index s)])" and
    s': "s' = assigned ''defined'' v ys rvalue rvs rds xs s \<or>
         s' = assigned ''defined_deref'' v ys rvalue rvs rds xs s"
    by blast
  from s' show "edb s' ''rhs_address'' =
        edb s ''rhs_address'' @
          (if truthy (is_address rvalue) then [Tuple [the (is_address rvalue), fst frag]] else [])"
    unfolding frag fst_conv by (elim disjE) (simp_all only: assigned_rhs_address simp_thms)
next
  fix frag s' assume "visit_Return e s = Inr (frag, s')"
  then obtain r s2 l where p: "process_expr e (snd (new_label s)) = Inr (r, s2)"
    and s': "s' = edb_append ''return'' (Str l) (add_used (fst r) (snd r) l s2)"
    by (auto simp: visit_Return_def add_elementary_block_def split: sum.splits prod.splits)
  from process_expr_eq [OF p] have "edb s2 ''rhs_address'' = edb s ''rhs_address''"
    by (simp add: new_label_def Let_def)
  then show "edb s' ''rhs_address'' = edb s ''rhs_address''"
    unfolding s' by simp
next
  fix frag s' assume "visit_FuncCall f args s = Inr (frag, s')"
  from visit_FuncCall_Inr [OF this] obtain s4 where
    q: "quiet (lbl (availabe_label_index s)) (called f s) s4" and
    s': "s' = s4 \<or> (\<exists>a. s' = call_arg_tags f a (lbl (availabe_label_index s)) s4)"
    by blast
  from quiet_edb [OF q, of "''rhs_address''"]
  have "edb s4 ''rhs_address'' = edb s ''rhs_address''"
    by (simp add: called_def Let_def)
  with s' show "edb s' ''rhs_address'' = edb s ''rhs_address''"
    by (elim disjE exE) simp_all
next
  fix l s' assume "condition_block cond s = Inr (l, s')"
  from condition_block_Inr [OF this] show "edb s' ''rhs_address'' = edb s ''rhs_address''"
    by auto
qed

theorem C6_address_of_scan_witness:
  "expr_visit (UnaryOp ''&'' (ID ''x'')) ([], []) = Inr ([''x''], []) \<and>
   expr_visit (BinaryOp ''+'' (UnaryOp ''&'' (ID ''x'')) (ID ''y'')) ([], []) =
     Inr ([''y'', ''x''], []) \<and>
   (\<exists>r s'. process_expr (Some (UnaryOp ''&'' (ID ''x''))) StatementVisitor = Inr (r, s') \<and>
           edb s' ''rhs_address'' = []) \<and>
   (\<exists>s'. visit_Assignment (ID ''p'') (UnaryOp ''&'' (ID ''x'')) StatementVisitor =
            Inr ((''l1'', [''l1'']), s') \<and>
         edb s' ''rhs_address'' = [Tuple [''x'', ''l1'']]) \<and>
   (\<exists>s'. visit_Return (Some (UnaryOp ''&'' (ID ''x''))) StatementVisitor = Inr ((''l1'', []), s') \<and>
         edb s' ''rhs_address'' = []) \<and>
   (\<exists>s'. visit_FuncCall ''f'' (Some [UnaryOp ''&'' (ID ''x'')]) StatementVisitor =
            Inr ((''l1'', [''l1'']), s') \<and>
         edb s' ''rhs_address'' = []) \<and>
   (\<exists>s'. condition_block (UnaryOp ''&'' (ID ''x'')) StatementVisitor = Inr (''l1'', s') \<and>
         edb s' ''rhs_address'' = [])"
proof -
  obtain r s1 where p: "process_expr (Some (UnaryOp ''&'' (ID ''x''))) StatementVisitor = Inr (r, s1)"
    by (simp add: process_expr_def)
  obtain s2 where v:
    "visit_Assignment (ID ''p'') (UnaryOp ''&'' (ID ''x'')) StatementVisitor =
       Inr ((''l1'', [''l1'']), s2)"
    by (simp add: eval_defs)
  obtain s3 where ret:
    "visit_Return (Some (UnaryOp ''&'' (ID ''x''))) StatementVisitor = Inr ((''l1'', []), s3)"
    by (simp add: eval_defs)
  obtain s4 where call:
    "visit_FuncCall ''f'' (Some [UnaryOp ''&'' (ID ''x'')]) StatementVisitor =
       Inr ((''l1'', [''l1'']), s4)"
    by (simp add: eval_defs)
  obtain s5 where c:
    "condition_block (UnaryOp ''&'' (ID ''x'')) StatementVisitor = Inr (''l1'', s5)"
    by (simp add: eval_defs)
  note t = C6_address_of_scan [of "''x''" "[]" "[]" "ID ''x''" "Some (UnaryOp ''&'' (ID ''x''))"
      StatementVisitor "ID ''p''" "UnaryOp ''&'' (ID ''x'')" "''f''"
      "Some [UnaryOp ''&'' (ID ''x'')]" "UnaryOp ''&'' (ID ''x'')"]
  from t p have "edb s1 ''rhs_address'' = []"
    by (simp add: StatementVisitor_def)
  moreover from t v have "edb s2 ''rhs_address'' = [Tuple [''x'', ''l1'']]"
    by (simp add: StatementVisitor_def)
  moreover from t ret have "edb s3 ''rhs_address'' = []"
    by (simp add: StatementVisitor_def)
  moreover from t call have "edb s4 ''rhs_address'' = []"
    by (simp add: StatementVisitor_def)
  moreover from t c have "edb s5 ''rhs_address'' = []"
    by (simp add: StatementVisitor_def)
  moreover have "expr_visit (BinaryOp ''+'' (UnaryOp ''&'' (ID ''x'')) (ID ''y'')) ([], []) =
     Inr ([''y'', ''x''], [])"
    by simp
  ultimately show ?thesis using p v ret call c by simp
qed

subsection \<open>C7\<close>

text \<open>
  Claim C7. For every accepted program and every label, at most one of rhs_var,
  rhs_const, rhs_deref, rhs_address holds a tuple with that label, and at most one of
  call_arg_var, call_arg_const, call_arg_deref does.
\<close>

theorem C7_shape_exclusive:
  assumes "generate_cfg ast = Inr e"
  shows "length (filter (tagged e l) [''rhs_var'', ''rhs_const'', ''rhs_deref'', ''rhs_address'']) \<le> 1 \<and>
         length (filter (tagged e l) [''call_arg_var'', ''call_arg_const'', ''call_arg_deref'']) \<le> 1"
proof -
  from assms obtain init finals v where
    p: "post StatementVisitor (init, finals) v" and
    e: "edb e = (edb v)(''init'' := [Str init],
                      ''final'' := remdups (map Str finals @ edb v ''return''))"
    by (rule generate_cfg_Inr)
  from postD(1) [OF p] have "distinct (rhs_labels v)" and "distinct (call_arg_labels v)"
    by (simp_all add: consistent_def)
  moreover from e have "rhs_labels e = rhs_labels v" and "call_arg_labels e = call_arg_labels v"
    by (simp_all add: rhs_labels_def call_arg_labels_def)
  ultimately have r: "distinct (rhs_labels e)" and c: "distinct (call_arg_labels e)"
    by simp_all
  from r have "length (filter (tagged e l) [''rhs_var'', ''rhs_const'', ''rhs_deref'', ''rhs_address'']) \<le> 1"
    unfolding rhs_labels_def tagged_def by auto
  moreover from c have "length (filter (tagged e l) [''call_arg_var'', ''call_arg_const'', ''call_arg_deref'']) \<le> 1"
    unfolding call_arg_labels_def tagged_def by auto
  ultimately show ?thesis ..
qed

theorem C7_shape_exclusive_witness:
  "\<exists>e. generate_cfg example_branch = Inr e \<and>
     length (filter (tagged e ''l2'') [''rhs_var'', ''rhs_const'', ''rhs_deref'', ''rhs_address'']) \<le> 1 \<and>
     length (filter (tagged e ''l2'') [''call_arg_var'', ''call_arg_const'', ''call_arg_deref'']) \<le> 1"
proof -
  from example_branch_accepted obtain e where g: "generate_cfg example_branch = Inr e" ..
  from C7_shape_exclusive [OF g, of "''l2''"] g show ?thesis by blast
qed

subsection \<open>C8\<close>

text \<open>
  Claim C8. For every accepted program the entries of label are pairwise distinct: they
  are the labels of the counter values from 1 up to the counter's last value, in order;
  and every label referenced by a tuple of another relation is in label.
\<close>

theorem C8_labels:
  assumes "generate_cfg ast = Inr e"
  shows "distinct (edb e ''label'') \<and>
         edb e ''label'' = map (\<lambda>i. Str (lbl i)) [1..<availabe_label_index e] \<and>
         (\<forall>name t l. t \<in> set (edb e name) \<longrightarrow> l \<in> fact_labels name t \<longrightarrow>
            Str l \<in> set (edb e ''label''))"
proof -
  from assms obtain init finals v where
    p: "post StatementVisitor (init, finals) v" and
    i: "availabe_label_index e = availabe_label_index v" and
    e: "edb e = (edb v)(''init'' := [Str init],
                      ''final'' := remdups (map Str finals @ edb v ''return''))"
    by (rule generate_cfg_Inr)
  note pd = postD [OF p]
  from pd(1) have lab: "edb v ''label'' = map (\<lambda>i. Str (lbl i)) [1..<availabe_label_index v]"
    and refs: "label_refs v \<subseteq> strs v ''label''"
    by (simp_all add: consistent_def)
  from e have same: "edb e ''label'' = edb v ''label''" by simp
  have "inj_on (\<lambda>i. Str (lbl i)) (set [1..<availabe_label_index v])"
    by (rule inj_onI) (simp add: lbl_inj)
  then have "distinct (edb e ''label'')"
    unfolding same lab by (simp add: distinct_map)
  moreover have "edb e ''label'' = map (\<lambda>i. Str (lbl i)) [1..<availabe_label_index e]"
    using same lab i by simp
  moreover have "label_refs e \<subseteq> {l. Str l \<in> set (edb e ''label'')}"
    using label_refs_generate [OF e] refs pd(3) pd(5) unfolding same strs_def by blast
  then have "\<forall>name t l. t \<in> set (edb e name) \<longrightarrow> l \<in> fact_labels name t \<longrightarrow>
            Str l \<in> set (edb e ''label'')"
    unfolding label_refs_def by blast
  ultimately show ?thesis by blast
qed

theorem C8_labels_witness:
  "\<exists>e. generate_cfg example_branch = Inr e \<and>
       distinct (edb e ''label'') \<and>
       edb e ''label'' = map (\<lambda>i. Str (lbl i)) [1..<availabe_label_index e] \<and>
       (\<forall>name t l. t \<in> set (edb e name) \<longrightarrow> l \<in> fact_labels name t \<longrightarrow>
            Str l \<in> set (edb e ''label''))"
proof -
  from example_branch_accepted obtain e where g: "generate_cfg example_branch = Inr e" ..
  from C8_labels [OF g] g show ?thesis by blast
qed

subsection \<open>C10\<close>

text \<open>
  Claim C10. A return without an expression fails with
  \<open>UnsupportedLanguageConstruct\<close>; where the visit of a return succeeds, the statement
  carries an expression that the read scan accepts.
\<close>

theorem C10_bare_return:
  "visit_Return None s = Inl UnsupportedLanguageConstruct \<and>
   (\<forall>r. visit_Return e s = Inr r \<longrightarrow>
      (\<exists>n reads. e = Some n \<and> expr_visit n ([], []) = Inr reads))"
proof -
  have "visit_Return None s = Inl UnsupportedLanguageConstruct"
    by (simp add: visit_Return_def add_elementary_block_def new_label_def process_expr_def)
  moreover have "\<exists>n reads. e = Some n \<and> expr_visit n ([], []) = Inr reads"
    if "visit_Return e s = Inr r" for r
    using that
    by (cases e)
      (auto simp: visit_Return_def add_elementary_block_def new_label_def process_expr_def Let_def
        split: sum.splits)
  ultimately show ?thesis by blast
qed

theorem C10_bare_return_witness:
  "visit_Return None StatementVisitor = Inl UnsupportedLanguageConstruct \<and>
   (\<exists>n reads. Some (ID ''x'') = Some n \<and> expr_visit n ([], []) = Inr reads)"
proof -
  have "\<exists>r. visit_Return (Some (ID ''x'')) StatementVisitor = Inr r"
    by (simp add: eval_defs)
  with C10_bare_return [of StatementVisitor "Some (ID ''x'')"] show ?thesis by blast
qed

end
